theory Spec2Isabelle
  imports Complex_Main "HOL-Library.Sublist"
begin

section \<open>Strings\<close>

text \<open>
  A Python \<open>str\<close> is a sequence of code points. It is modelled as a \<open>string\<close> whose
  characters are the code points below 256; \<open>length\<close> is then Python's \<open>len\<close>.
  The built-in string methods used by the program are written out below.
\<close>

datatype error =
    ValueError
  | IndexError
  | KeyError
  | AttributeError
  | UnboundLocalError
  | NotImplementedError
  | ModuleNotFoundError
  | DecodeStringError
  | SystemExit nat

text \<open>\<open>str.isspace\<close> on one code point below 256.\<close>

definition isspace :: "char \<Rightarrow> bool" where
  "isspace c = (of_char c \<in> {9::nat, 10, 11, 12, 13, 28, 29, 30, 31, 32, 133, 160})"

text \<open>\<open>str.lstrip()\<close>, \<open>str.rstrip()\<close> and \<open>str.strip()\<close> without argument.\<close>

definition str_lstrip :: "string \<Rightarrow> string" where
  "str_lstrip s = dropWhile isspace s"

definition str_rstrip :: "string \<Rightarrow> string" where
  "str_rstrip s = rev (dropWhile isspace (rev s))"

definition str_strip :: "string \<Rightarrow> string" where
  "str_strip s = str_rstrip (str_lstrip s)"

text \<open>
  \<open>sep.join(tokens)\<close>.
\<close>

fun str_join :: "string \<Rightarrow> string list \<Rightarrow> string" where
  "str_join sep [] = []"
| "str_join sep [t] = t"
| "str_join sep (t # u # ts) = t @ sep @ str_join sep (u # ts)"

text \<open>
  \<open>text.split(sep)\<close>: the text is scanned from the left, every occurrence of the
  separator found closes the current token and the scan resumes behind it. An empty
  separator raises \<open>ValueError\<close>.
\<close>

fun split_scan :: "string \<Rightarrow> string \<Rightarrow> string list" where
  "split_scan sep [] = [[]]"
| "split_scan sep (c # cs) =
     (if prefix sep (c # cs) then [] # split_scan sep (drop (length sep - 1) cs)
      else (let ts = split_scan sep cs in (c # hd ts) # tl ts))"

definition str_split :: "string \<Rightarrow> string \<Rightarrow> error + string list" where
  "str_split s sep = (if sep = [] then Inl ValueError else Inr (split_scan sep s))"

section \<open>Item texts (item/base.py)\<close>

datatype ItemTextType = menu | action | notification | raw

text \<open>The member names of the enumeration, and the look-up \<open>ItemTextType[name]\<close>.\<close>

definition ItemTextType_names :: "string list" where
  "ItemTextType_names = [''menu'', ''action'', ''notification'', ''raw'']"

definition ItemTextType_by_name :: "string \<Rightarrow> error + ItemTextType" where
  "ItemTextType_by_name n =
     (if n = ''menu'' then Inr ItemTextType.menu
      else if n = ''action'' then Inr ItemTextType.action
      else if n = ''notification'' then Inr ItemTextType.notification
      else if n = ''raw'' then Inr ItemTextType.raw
      else Inl KeyError)"

text \<open>The string value of a member (the enumeration is a \<open>StrEnum\<close>).\<close>

fun ItemTextType_value :: "ItemTextType \<Rightarrow> string" where
  "ItemTextType_value ItemTextType.menu = ''<menu>''"
| "ItemTextType_value ItemTextType.action = ''<action>''"
| "ItemTextType_value ItemTextType.notification = ''<notification>''"
| "ItemTextType_value ItemTextType.raw = ''''"

text \<open>
  The dataclass \<open>ItemTexts\<close>. Its \<open>type\<close> field is a \<open>str\<close>: it holds the value
  of a member of the enumeration, or what an interface made of it.
\<close>

record ItemTexts =
  type :: string
  category :: string
  subcategory :: string
  status :: string
  "text" :: string
  menu :: string

text \<open>\<open>ItemTexts()\<close>: every field at its default.\<close>

definition ItemTexts_default :: ItemTexts where
  "ItemTexts_default =
     \<lparr>type = ItemTextType_value ItemTextType.raw, category = [], subcategory = [],
      status = [], text = [], menu = []\<rparr>"

text \<open>\<open>BaseItem.str2item_texts(text, token_separator)\<close>.\<close>

definition str2item_texts :: "string \<Rightarrow> string \<Rightarrow> error + (ItemTexts \<times> string)" where
  "str2item_texts txt token_separator =
     (case str_split txt token_separator of
        Inl e \<Rightarrow> Inl e
      | Inr tokens \<Rightarrow>
          if length tokens > 4 \<and> str_strip (tokens ! 0) \<in> set ItemTextType_names then
            (case ItemTextType_by_name (str_strip (tokens ! 0)) of
               Inl e \<Rightarrow> Inl e
             | Inr item_type \<Rightarrow>
                 (let t = tokens ! 4;
                      t = (if item_type \<noteq> ItemTextType.raw then str_strip t else t)
                  in Inr (\<lparr>type = ItemTextType_value item_type,
                           category = str_strip (tokens ! 1),
                           subcategory = str_strip (tokens ! 2),
                           status = str_strip (tokens ! 3),
                           text = t,
                           menu = []\<rparr>,
                          str_join token_separator (drop 5 tokens))))
          else Inr (ItemTexts_default, txt))"

section \<open>Items (item/base.py)\<close>

text \<open>
  Of the configuration, the interface selector and the token separators are read by
  the functions modelled here.
\<close>

record Configuration =
  interface :: string
  token_separators :: "string list"

text \<open>
  The attributes of an item instance. The class of an instance fixes \<open>item_type\<close>;
  subclasses extend the record.
\<close>

record BaseItem =
  item_type :: string
  texts :: ItemTexts
  "value" :: string
  raw_value :: string

text \<open>The property \<open>delimiter\<close>: \<open>configuration.token_separators[0]\<close>.\<close>

definition delimiter :: "Configuration \<Rightarrow> error + string" where
  "delimiter configuration =
     (case token_separators configuration of [] \<Rightarrow> Inl IndexError | d # _ \<Rightarrow> Inr d)"

text \<open>\<open>BaseItem.__init__\<close>, for a class whose \<open>item_type\<close> is \<open>name\<close>.\<close>

definition BaseItem_init :: "string \<Rightarrow> Configuration \<Rightarrow> string \<Rightarrow> error + BaseItem" where
  "BaseItem_init name configuration v =
     (case delimiter configuration of
        Inl e \<Rightarrow> Inl e
      | Inr d \<Rightarrow>
          (case str2item_texts v d of
             Inl e \<Rightarrow> Inl e
           | Inr (t, rest) \<Rightarrow>
               Inr \<lparr>item_type = name, texts = t, value = rest, raw_value = v\<rparr>))"

definition visible :: "'a BaseItem_scheme \<Rightarrow> bool" where
  "visible item = (text (texts item) \<noteq> [])"

definition "identifier" :: "'a BaseItem_scheme \<Rightarrow> string" where
  "identifier item = item_type item @ '':'' @ raw_value item"

section \<open>Interfaces (interface.py)\<close>

datatype next_action = selected | restart | "back" | quit

definition QUIT_EXIT_CODE :: nat where
  "QUIT_EXIT_CODE = 250"

text \<open>
  \<open>Interface.formatted_texts\<close>. The method \<open>text_apply_tokens\<close> is the adapter's; it
  reads the environment and a table of glyphs, and is a parameter here (with \<open>RAW\<close>
  set in the environment it returns its argument).
\<close>

definition formatted_texts :: "(string \<Rightarrow> string) \<Rightarrow> ItemTexts \<Rightarrow> ItemTexts" where
  "formatted_texts text_apply_tokens item =
     \<lparr>type = text_apply_tokens (type item),
      category = text_apply_tokens (str_strip (category item)),
      subcategory = text_apply_tokens (str_strip (subcategory item)),
      status = text_apply_tokens (str_strip (status item)),
      text = text_apply_tokens (text item),
      menu = []\<rparr>"

text \<open>
  The format specifications \<open>{s:<{n}}\<close> and \<open>{s:>{n}}\<close> of an f-string: pad with blanks
  to the width \<open>n\<close>, on the right or on the left; a longer string is left as it is.
\<close>

definition ljust :: "nat \<Rightarrow> string \<Rightarrow> string" where
  "ljust n s = s @ replicate (n - length s) CHR '' ''"

definition rjust :: "nat \<Rightarrow> string \<Rightarrow> string" where
  "rjust n s = replicate (n - length s) CHR '' '' @ s"

text \<open>\<open>max\<close> over the lengths of a field; it is only called on a non-empty list.\<close>

definition max_len :: "('a \<Rightarrow> string) \<Rightarrow> 'a list \<Rightarrow> nat" where
  "max_len field xs = fold max (map (\<lambda>i. length (field i)) xs) 0"

text \<open>The line built for one non-raw item in the loop of \<open>format_items_text\<close>.\<close>

definition menu_line :: "nat \<Rightarrow> nat \<Rightarrow> nat \<Rightarrow> nat \<Rightarrow> nat \<Rightarrow> ItemTexts \<Rightarrow> string" where
  "menu_line type_len category_len subcategory_len status_len text_len ft =
     (let t = '' '' @ ljust type_len (type ft);
          t = (if category_len \<noteq> 0 then t @ '' '' @ rjust category_len (category ft) else t);
          t = (if subcategory_len \<noteq> 0 then
                 (if subcategory ft \<noteq> [] then t @ ''/'' @ ljust subcategory_len (subcategory ft)
                  else t @ replicate (subcategory_len + 1) CHR '' '')
               else t);
          t = (if status_len \<noteq> 0 then t @ ''  '' @ rjust status_len (status ft) else t);
          t = (if text_len \<noteq> 0 then t @ ''  '' @ text ft else t)
      in t)"

text \<open>
  \<open>Interface.format_items_text\<close>. The method sets \<open>texts.menu\<close> of every item of
  \<open>self.items\<close>; the model returns the items with that field set.
\<close>

definition format_items_text ::
  "(string \<Rightarrow> string) \<Rightarrow> 'a BaseItem_scheme list \<Rightarrow> 'a BaseItem_scheme list" where
  "format_items_text text_apply_tokens items =
     (let ft = (\<lambda>i. formatted_texts text_apply_tokens (texts i));
          non_raw_items = filter (\<lambda>i. type (texts i) \<noteq> ItemTextType_value ItemTextType.raw) items;
          items1 =
            (if non_raw_items \<noteq> [] then
               (let type_len = max_len (\<lambda>i. type (ft i)) non_raw_items;
                    category_len = max_len (\<lambda>i. category (ft i)) non_raw_items;
                    subcategory_len = max_len (\<lambda>i. subcategory (ft i)) non_raw_items;
                    status_len = max_len (\<lambda>i. status (ft i)) non_raw_items;
                    text_len = max_len (\<lambda>i. text (ft i)) non_raw_items
                in map (\<lambda>item.
                     if type (texts item) \<noteq> ItemTextType_value ItemTextType.raw then
                       item\<lparr>texts := (texts item)\<lparr>menu :=
                         menu_line type_len category_len subcategory_len status_len text_len
                           (ft item)\<rparr>\<rparr>
                     else item) items)
             else items)
      in map (\<lambda>item.
           if type (texts item) = ItemTextType_value ItemTextType.raw then
             item\<lparr>texts := (texts item)\<lparr>menu := text (texts item)\<rparr>\<rparr>
           else item) items1)"

text \<open>\<open>Interface.get_selected_item\<close>: the first item whose menu line is the text.\<close>

definition get_selected_item :: "'a BaseItem_scheme list \<Rightarrow> string \<Rightarrow> 'a BaseItem_scheme option" where
  "get_selected_item items selected_text = find (\<lambda>item. menu (texts item) = selected_text) items"

text \<open>
  What the awaited picker process left behind, as \<open>run_menu\<close> reads it after the
  \<open>try\<close> block: whether the wait timed out, the return code and the decoded standard
  output.
\<close>

record picker =
  timeout_raised :: bool
  returncode :: int
  stdout :: string

text \<open>
  \<open>RofiInterface.run_menu\<close>, from the point where the picker has been awaited.
  A local variable that was never assigned raises \<open>UnboundLocalError\<close> when read.
\<close>

definition RofiInterface_run_menu ::
  "'a BaseItem_scheme list \<Rightarrow> picker \<Rightarrow> error + (next_action \<times> 'a BaseItem_scheme option)" where
  "RofiInterface_run_menu items proc =
     (if timeout_raised proc then Inr (restart, None)
      else
        (let selected_text = (let s = str_rstrip (stdout proc) in if s = [] then None else Some s);
             selected_item = (case selected_text of
                                None \<Rightarrow> None
                              | Some t \<Rightarrow> get_selected_item items t)
         in case (if returncode proc = 10 then Inr (Some restart)
                  else if returncode proc = 11 then Inl (SystemExit QUIT_EXIT_CODE)
                  else if returncode proc = 1 then Inr (Some back)
                  else if selected_text \<noteq> None then Inr (Some selected)
                  else Inr None) of
              Inl e \<Rightarrow> Inl e
            | Inr next_action \<Rightarrow>
                (let next_action =
                       (if selected_text \<noteq> None \<and> selected_item = None then Some restart
                        else next_action)
                 in case next_action of
                      None \<Rightarrow> Inl UnboundLocalError
                    | Some a \<Rightarrow> Inr (a, selected_item))))"

text \<open>\<open>str.splitlines()\<close>, with the line boundaries among the code points below 256.\<close>

definition is_linebreak :: "char \<Rightarrow> bool" where
  "is_linebreak c = (of_char c \<in> {10::nat, 11, 12, 13, 28, 29, 30, 133})"

fun splitlines_from :: "string \<Rightarrow> string \<Rightarrow> string list" where
  "splitlines_from cur [] = (if cur = [] then [] else [rev cur])"
| "splitlines_from cur [c] = (if is_linebreak c then [rev cur] else [rev (c # cur)])"
| "splitlines_from cur (c # d # ds) =
     (if c = CHR 0x0D \<and> d = CHR 0x0A then rev cur # splitlines_from [] ds
      else if is_linebreak c then rev cur # splitlines_from [] (d # ds)
      else splitlines_from (c # cur) (d # ds))"

definition str_splitlines :: "string \<Rightarrow> string list" where
  "str_splitlines s = splitlines_from [] s"

text \<open>\<open>FzfInterface.run_menu\<close>, from the point where the picker has been awaited.\<close>

definition FzfInterface_run_menu ::
  "'a BaseItem_scheme list \<Rightarrow> picker \<Rightarrow> error + (next_action \<times> 'a BaseItem_scheme option)" where
  "FzfInterface_run_menu items proc =
     (if timeout_raised proc then Inr (restart, None)
      else
        (let lines = str_splitlines (stdout proc);
             key = (case lines of [] \<Rightarrow> None | l # _ \<Rightarrow> Some (str_rstrip l));
             selected_text = (if lines \<noteq> [] \<and> length lines = 2
                              then Some (str_rstrip (lines ! 1)) else None);
             selected_item = (case selected_text of
                                None \<Rightarrow> None
                              | Some t \<Rightarrow> get_selected_item items t)
         in if key = Some ''ctrl-r'' \<or> key = Some ''f5'' then Inr (restart, selected_item)
            else if key = Some ''ctrl-q'' then Inl (SystemExit QUIT_EXIT_CODE)
            else if key = Some ''esc'' then Inr (back, selected_item)
            else if selected_text \<noteq> None \<and> selected_text \<noteq> Some [] then Inr (selected, selected_item)
            else if selected_text = None then Inr (restart, selected_item)
            else Inr (back, selected_item)))"

datatype interface_class = RofiInterface | FzfInterface

text \<open>
  \<open>Interface.run\<close>: the menu lines are built, then the adapter's \<open>run_menu\<close> runs.
  The wait can only time out when a timeout is set. (The row to highlight, computed
  first, goes to the picker's command line only.)
\<close>

definition Interface_run ::
  "interface_class \<Rightarrow> (string \<Rightarrow> string) \<Rightarrow> picker \<Rightarrow> 'a BaseItem_scheme list \<Rightarrow> real
     \<Rightarrow> error + (next_action \<times> 'a BaseItem_scheme option)" where
  "Interface_run cls text_apply_tokens proc items timeout =
     (let items = format_items_text text_apply_tokens items;
          proc = proc\<lparr>timeout_raised := (timeout \<noteq> 0 \<and> timeout_raised proc)\<rparr>
      in case cls of
           RofiInterface \<Rightarrow> RofiInterface_run_menu items proc
         | FzfInterface \<Rightarrow> FzfInterface_run_menu items proc)"

section \<open>Menus (item/menu.py)\<close>

text \<open>
  A child of a menu, as \<open>Menu.show\<close> uses it: the attributes of the instance, and what
  its two coroutines do when awaited. What they do is outside the core (they run
  external programs), so it is given with the instance: \<open>set_text\<close> ends at some time
  and either raises or leaves new texts; \<open>execute\<close> returns or raises.
\<close>

record Instance = BaseItem +
  set_text :: "nat \<times> (error + ItemTexts)"
  execute :: "error option"

text \<open>A class of items is its constructor, called as \<open>klass(configuration, value)\<close>.\<close>

type_synonym klass = "Configuration \<Rightarrow> string \<Rightarrow> error + Instance"

text \<open>
  A menu is an item; of its further attributes \<open>show\<close> reads the title and the
  children, given as pairs of a class and a value. (\<open>keep_opened\<close> and \<open>loop_timeout\<close>
  are read by \<open>execute\<close>, which passes the latter to \<open>show\<close> as an argument.)
\<close>

record Menu = BaseItem +
  title :: string
  items :: "(klass \<times> string) list"

text \<open>
  What one call of \<open>Menu.show\<close> did: the value returned or the exception raised,
  whether an error was logged, what \<open>interface.run\<close> answered (if it was called) and
  the items whose \<open>execute\<close> was awaited.
\<close>

record show_result =
  returned :: "error + (string \<times> string)"
  error_logged :: bool
  reported :: "(error + (next_action \<times> Instance option)) option"
  executed :: "Instance list"

text \<open>The list comprehension that instantiates the children, in order.\<close>

fun instantiate :: "Configuration \<Rightarrow> (klass \<times> string) list \<Rightarrow> error + Instance list" where
  "instantiate configuration [] = Inr []"
| "instantiate configuration ((klass, v) # rest) =
     (case klass configuration v of
        Inl e \<Rightarrow> Inl e
      | Inr i \<Rightarrow>
          (case instantiate configuration rest of
             Inl e \<Rightarrow> Inl e
           | Inr is \<Rightarrow> Inr (i # is)))"

text \<open>
  \<open>asyncio.gather\<close> over coroutines that run concurrently: when none raises, the
  results in the order of the arguments; otherwise the exception raised first
  (among those raised at the same time, the one of the earliest argument).
\<close>

definition first_raised :: "nat \<times> error \<Rightarrow> (nat \<times> error) list \<Rightarrow> error" where
  "first_raised f fs = snd (fold (\<lambda>x m. if fst x < fst m then x else m) fs f)"

definition gather :: "(nat \<times> (error + 'a)) list \<Rightarrow> error + 'a list" where
  "gather outcomes =
     (case List.map_filter (\<lambda>(t, r). case r of Inl e \<Rightarrow> Some (t, e) | Inr _ \<Rightarrow> None) outcomes of
        [] \<Rightarrow> Inr (List.map_filter (\<lambda>(t, r). case r of Inl _ \<Rightarrow> None | Inr v \<Rightarrow> Some v) outcomes)
      | f # fs \<Rightarrow> Inl (first_raised f fs))"

text \<open>
  The first steps of \<open>Menu.show\<close>: the hooks \<open>set_items\<close> and \<open>set_title\<close> of the
  menu's class (parameters here; the base class does nothing in them) and the
  instantiation of the children.
\<close>

definition show_instances ::
  "(Menu \<Rightarrow> error + Menu) \<Rightarrow> (Menu \<Rightarrow> error + Menu) \<Rightarrow> Configuration \<Rightarrow> Menu
     \<Rightarrow> error + Instance list" where
  "show_instances set_items set_title configuration self =
     (case set_items self of
        Inl e \<Rightarrow> Inl e
      | Inr self \<Rightarrow>
          (case set_title self of
             Inl e \<Rightarrow> Inl e
           | Inr self \<Rightarrow> instantiate configuration (items self)))"

text \<open>
  The concurrent text resolution: \<open>set_text_wrapper\<close> of every child is gathered
  (the wrapper awaits \<open>set_text\<close> and logs); afterwards every child has its new texts.
\<close>

definition resolve_texts :: "Instance list \<Rightarrow> error + Instance list" where
  "resolve_texts items_instances =
     (case gather (map set_text items_instances) of
        Inl e \<Rightarrow> Inl e
      | Inr ts \<Rightarrow> Inr (map (\<lambda>(i, t). i\<lparr>texts := t\<rparr>) (zip items_instances ts)))"

text \<open>The \<open>match\<close> on \<open>configuration.interface\<close>; it has no default case.\<close>

definition interface_class_of :: "Configuration \<Rightarrow> error + interface_class" where
  "interface_class_of configuration =
     (if interface configuration = ''rofi'' then Inr RofiInterface
      else if interface configuration = ''fzf'' then Inr FzfInterface
      else Inl UnboundLocalError)"

fun next_action_str :: "next_action \<Rightarrow> string" where
  "next_action_str selected = ''selected''"
| "next_action_str restart = ''restart''"
| "next_action_str back = ''back''"
| "next_action_str quit = ''quit''"

text \<open>
  The end of \<open>Menu.show\<close>, from the answer of the interface on. Reading the
  identifier of a selected item that is \<open>None\<close> raises \<open>AttributeError\<close>.
\<close>

definition show_action ::
  "real \<Rightarrow> error + (next_action \<times> Instance option) \<Rightarrow> show_result" where
  "show_action loop_timeout answer =
     (case answer of
        Inl e \<Rightarrow>
          \<lparr>returned = Inl e, error_logged = False, reported = Some answer, executed = []\<rparr>
      | Inr (act, selected_item) \<Rightarrow>
          (let act = (if act = selected \<and> loop_timeout \<noteq> 0 then back else act);
               ident = (case selected_item of None \<Rightarrow> [] | Some item \<Rightarrow> identifier item)
           in if act = selected then
                (case selected_item of
                   None \<Rightarrow>
                     \<lparr>returned = Inl AttributeError, error_logged = False,
                      reported = Some answer, executed = []\<rparr>
                 | Some item \<Rightarrow>
                     if type (texts item) \<noteq> ItemTextType_value ItemTextType.notification then
                       (case execute item of
                          Some e \<Rightarrow>
                            \<lparr>returned = Inl e, error_logged = False,
                             reported = Some answer, executed = [item]\<rparr>
                        | None \<Rightarrow>
                            \<lparr>returned = Inr (next_action_str act, ident),
                             error_logged = False, reported = Some answer, executed = [item]\<rparr>)
                     else
                       \<lparr>returned = Inr (next_action_str act, ident), error_logged = False,
                        reported = Some answer, executed = []\<rparr>)
              else
                \<lparr>returned = Inr (next_action_str act, ident), error_logged = False,
                 reported = Some answer, executed = []\<rparr>))"

text \<open>
  \<open>Menu.show\<close>. Only the gathering of the texts is inside the \<open>try\<close> block that
  catches \<open>DecodeStringError\<close>. (Clearing the shared data at the start is modelled with
  the shared data, below; \<open>last_item_id\<close> only chooses the row to highlight.)
\<close>

definition "show" ::
  "(Menu \<Rightarrow> error + Menu) \<Rightarrow> (Menu \<Rightarrow> error + Menu) \<Rightarrow> (string \<Rightarrow> string) \<Rightarrow> picker
     \<Rightarrow> Configuration \<Rightarrow> Menu \<Rightarrow> string \<Rightarrow> real \<Rightarrow> show_result" where
  "show set_items set_title text_apply_tokens proc configuration self last_item_id loop_timeout =
     (case show_instances set_items set_title configuration self of
        Inl e \<Rightarrow> \<lparr>returned = Inl e, error_logged = False, reported = None, executed = []\<rparr>
      | Inr items_instances \<Rightarrow>
          (case resolve_texts items_instances of
             Inl e \<Rightarrow>
               if e = DecodeStringError then
                 \<lparr>returned = Inr ([], []), error_logged = True, reported = None, executed = []\<rparr>
               else \<lparr>returned = Inl e, error_logged = False, reported = None, executed = []\<rparr>
           | Inr items_instances \<Rightarrow>
               (case interface_class_of configuration of
                  Inl e \<Rightarrow>
                    \<lparr>returned = Inl e, error_logged = False, reported = None, executed = []\<rparr>
                | Inr cls \<Rightarrow>
                    show_action loop_timeout
                      (Interface_run cls text_apply_tokens proc
                         (filter visible items_instances) loop_timeout))))"

section \<open>The Zerotier item (item/zerotier.py)\<close>

record ItemZerotierNetwork = BaseItem +
  network_id :: string
  network_name :: string

text \<open>
  \<open>ItemZerotierNetwork.__init__\<close>: after the initialisation of the base class the
  value is split at the delimiter and unpacked into exactly two names.
\<close>

definition ItemZerotierNetwork_init :: "Configuration \<Rightarrow> string \<Rightarrow> error + ItemZerotierNetwork" where
  "ItemZerotierNetwork_init configuration v =
     (case BaseItem_init ''ItemZerotierNetwork'' configuration v of
        Inl e \<Rightarrow> Inl e
      | Inr b \<Rightarrow>
          (case delimiter configuration of
             Inl e \<Rightarrow> Inl e
           | Inr d \<Rightarrow>
               (case str_split v d of
                  Inl e \<Rightarrow> Inl e
                | Inr tokens \<Rightarrow>
                    (case tokens of
                       [a, n] \<Rightarrow> Inr (BaseItem.extend b
                                   (ItemZerotierNetwork.fields a n))
                     | _ \<Rightarrow> Inl ValueError))))"

text \<open>
  The class as a child of a menu; what its coroutines do (they call the privileged
  helper) is given.
\<close>

definition ItemZerotierNetwork_class :: "nat \<times> (error + ItemTexts) \<Rightarrow> error option \<Rightarrow> klass" where
  "ItemZerotierNetwork_class text_outcome execute_outcome configuration v =
     (case ItemZerotierNetwork_init configuration v of
        Inl e \<Rightarrow> Inl e
      | Inr z \<Rightarrow> Inr (BaseItem.extend (BaseItem.truncate z)
                        (Instance.fields text_outcome execute_outcome)))"

section \<open>Inline menus (item/items.py, item/menu_inline.py)\<close>

text \<open>\<open>str.lower()\<close>, on the code points below 256.\<close>

definition lower_char :: "char \<Rightarrow> char" where
  "lower_char c =
     (let n = (of_char c :: nat)
      in if (65 \<le> n \<and> n \<le> 90) \<or> (192 \<le> n \<and> n \<le> 222 \<and> n \<noteq> 215)
         then char_of (n + 32) else c)"

definition str_lower :: "string \<Rightarrow> string" where
  "str_lower s = map lower_char s"

text \<open>
  The classes that \<open>get_item_class\<close> can return. It imports the module of a class
  when asked for it. The modules \<open>item/sound.py\<close> and \<open>item/syncthing.py\<close> import
  \<open>item/item.py\<close> in their turn, and the repository has no such file: for the names
  \<open>audiomenu\<close>, \<open>item\<close> and \<open>syncthingmenu\<close> the import raises
  \<open>ModuleNotFoundError\<close>, and no class is returned.
\<close>

datatype item_class =
    MenuInline
  | MenuExternal
  | ItemExternal
  | ItemSystemdUnit
  | ItemZerotierNetwork

text \<open>\<open>get_item_class\<close>: an unknown name ends the process with exit code 1.\<close>

definition get_item_class :: "string \<Rightarrow> error + item_class" where
  "get_item_class name =
     (let n = str_lower (str_strip name)
      in if n = ''audiomenu'' then Inl ModuleNotFoundError
         else if n = ''menu_inline'' then Inr MenuInline
         else if n = ''menu_external'' then Inr MenuExternal
         else if n = ''item'' then Inl ModuleNotFoundError
         else if n = ''item_external'' then Inr ItemExternal
         else if n = ''syncthingmenu'' then Inl ModuleNotFoundError
         else if n = ''systemdunit'' then Inr ItemSystemdUnit
         else if n = ''zerotiernetwork'' then Inr ItemZerotierNetwork
         else Inl (SystemExit 1))"

text \<open>
  \<open>s.replace(old, new)\<close>: the occurrences of \<open>old\<close> found scanning from the left are
  replaced; an empty \<open>old\<close> matches before every character and at the end.
\<close>

fun replace_scan :: "string \<Rightarrow> string \<Rightarrow> string \<Rightarrow> string" where
  "replace_scan old new [] = []"
| "replace_scan old new (c # cs) =
     (if prefix old (c # cs) then new @ replace_scan old new (drop (length old - 1) cs)
      else c # replace_scan old new cs)"

definition str_replace :: "string \<Rightarrow> string \<Rightarrow> string \<Rightarrow> string" where
  "str_replace s old new =
     (if old = [] then new @ concat (map (\<lambda>c. c # new) s) else replace_scan old new s)"

text \<open>
  \<open>get_item_type_value\<close>. Indexing the separators out of range raises \<open>IndexError\<close>,
  as does \<open>pop\<close> on an empty list.
\<close>

definition get_item_type_value :: "string \<Rightarrow> string list \<Rightarrow> error + (item_class \<times> string)" where
  "get_item_type_value v separators =
     (if length separators < 2 then Inl IndexError
      else
        (case str_split v (separators ! 1) of
           Inl e \<Rightarrow> Inl e
         | Inr tokens \<Rightarrow>
             (case tokens of
                [] \<Rightarrow> Inl IndexError
              | name # tokens \<Rightarrow>
                  (case get_item_class name of
                     Inl e \<Rightarrow> Inl e
                   | Inr cls \<Rightarrow>
                       (let inner_value = str_join (separators ! 1) tokens;
                            inner_value =
                              fold (\<lambda>level inner_value.
                                      str_replace inner_value (separators ! (level + 1))
                                        (separators ! level))
                                [0..<length separators - 1] inner_value
                        in Inr (cls, inner_value))))))"

text \<open>
  Modelled on the words of the specification, to compare \<open>get_item_type_value\<close> with:
  every separator used inside the value is re-mapped down by one level. The value is
  read from the left; where a separator of a level above 0 begins, the separator
  one level below is written in its place and reading goes on behind it.
\<close>

fun remap_scan :: "(string \<times> string) list \<Rightarrow> string \<Rightarrow> string" where
  "remap_scan levels [] = []"
| "remap_scan levels (c # cs) =
     (case find (\<lambda>(upper, lower). upper \<noteq> [] \<and> prefix upper (c # cs)) levels of
        Some (upper, lower) \<Rightarrow> lower @ remap_scan levels (drop (length upper - 1) cs)
      | None \<Rightarrow> c # remap_scan levels cs)"

definition remap_down :: "string list \<Rightarrow> string \<Rightarrow> string" where
  "remap_down separators v = remap_scan (zip (tl separators) separators) v"

section \<open>Shared data (item/base.py)\<close>

text \<open>
  \<open>BaseItem.get_shared_data\<close>, called concurrently by items of one class. The calls
  are coroutines on one event loop: the scheduler resumes one of them at a time, and
  a call runs until it has to wait. The points where a call can stand are
  \<^item> \<open>Waiting\<close>: at \<open>async with self.lock\<close>, the lock not yet acquired;
  \<^item> \<open>Entered\<close>: the lock is acquired, the test \<open>item_type not in shared\<close> comes next;
  \<^item> \<open>Computing n\<close>: awaiting \<open>set_shared_data()\<close>, its invocation number \<open>n\<close>, under the
    lock;
  \<^item> \<open>Left\<close>: the lock is released, \<open>return self.shared[self.item_type]\<close> comes next;
  \<^item> \<open>Returned v\<close> and \<open>Raised e\<close>: the call is over.

  The state holds the calls, the owner of the lock of the class, the entry of the
  class in the dictionary \<open>shared\<close>, and the number of invocations of
  \<open>set_shared_data\<close> so far. What the \<open>n\<close>-th invocation of \<open>set_shared_data\<close> returns or
  raises is given by a parameter.
\<close>

datatype 'v call = Waiting | Entered | Computing nat | Left | Returned 'v | Raised error

record 'v shared_state =
  calls :: "'v call list"
  lock :: "nat option"
  shared :: "'v option"
  invocations :: nat

text \<open>The state after \<open>self.shared.clear()\<close> in \<open>Menu.show\<close>, with \<open>K\<close> calls to come.\<close>

definition cleared :: "nat \<Rightarrow> 'v shared_state" where
  "cleared K = \<lparr>calls = replicate K Waiting, lock = None, shared = None, invocations = 0\<rparr>"

text \<open>
  The scheduler resumes call \<open>t\<close>. A call that waits for a held lock, or is over,
  stays where it is.
\<close>

definition get_shared_data_step ::
  "(nat \<Rightarrow> error + 'v) \<Rightarrow> nat \<Rightarrow> 'v shared_state \<Rightarrow> 'v shared_state" where
  "get_shared_data_step set_shared_data t s =
     (if length (calls s) \<le> t then s
      else
        (case calls s ! t of
           Waiting \<Rightarrow>
             (case lock s of
                None \<Rightarrow> s\<lparr>calls := (calls s)[t := Entered], lock := Some t\<rparr>
              | Some _ \<Rightarrow> s)
         | Entered \<Rightarrow>
             (case shared s of
                None \<Rightarrow> s\<lparr>calls := (calls s)[t := Computing (invocations s)],
                           invocations := invocations s + 1\<rparr>
              | Some _ \<Rightarrow> s\<lparr>calls := (calls s)[t := Left], lock := None\<rparr>)
         | Computing n \<Rightarrow>
             (case set_shared_data n of
                Inl e \<Rightarrow> s\<lparr>calls := (calls s)[t := Raised e], lock := None\<rparr>
              | Inr v \<Rightarrow> s\<lparr>calls := (calls s)[t := Left], lock := None, shared := Some v\<rparr>)
         | Left \<Rightarrow>
             (case shared s of
                None \<Rightarrow> s\<lparr>calls := (calls s)[t := Raised KeyError]\<rparr>
              | Some v \<Rightarrow> s\<lparr>calls := (calls s)[t := Returned v]\<rparr>)
         | Returned v \<Rightarrow> s
         | Raised e \<Rightarrow> s))"

text \<open>A run: the calls are resumed in the order of a schedule.\<close>

definition get_shared_data_run ::
  "(nat \<Rightarrow> error + 'v) \<Rightarrow> nat list \<Rightarrow> 'v shared_state \<Rightarrow> 'v shared_state" where
  "get_shared_data_run set_shared_data schedule s =
     fold (get_shared_data_step set_shared_data) schedule s"

text \<open>What holds of every state of a run that starts after the clearing.\<close>

definition in_lock :: "'v call \<Rightarrow> bool" where
  "in_lock c = (case c of Entered \<Rightarrow> True | Computing _ \<Rightarrow> True | _ \<Rightarrow> False)"

definition lock_invariant :: "'v shared_state \<Rightarrow> bool" where
  "lock_invariant s \<longleftrightarrow>
     (\<forall>t < length (calls s). in_lock (calls s ! t) \<longleftrightarrow> lock s = Some t)
   \<and> (\<forall>t. lock s = Some t \<longrightarrow> t < length (calls s))
   \<and> (\<forall>t < length (calls s). \<forall>n. calls s ! t = Computing n \<longrightarrow> shared s = None)
   \<and> (\<forall>t < length (calls s). calls s ! t = Left \<longrightarrow> shared s \<noteq> None)
   \<and> (\<forall>t < length (calls s). \<forall>v. calls s ! t = Returned v \<longrightarrow> shared s = Some v)"

text \<open>The calls that ended with an exception.\<close>

definition is_raised :: "'v call \<Rightarrow> bool" where
  "is_raised c = (case c of Raised _ \<Rightarrow> True | _ \<Rightarrow> False)"

definition raised_calls :: "'v shared_state \<Rightarrow> nat" where
  "raised_calls s = length (filter is_raised (calls s))"

definition invocations_invariant :: "'v shared_state \<Rightarrow> bool" where
  "invocations_invariant s \<longleftrightarrow>
     invocations s =
       raised_calls s +
       (if shared s \<noteq> None \<or> (\<exists>t < length (calls s). \<exists>n. calls s ! t = Computing n)
        then 1 else 0)"

definition shared_invariant :: "'v shared_state \<Rightarrow> bool" where
  "shared_invariant s \<longleftrightarrow> lock_invariant s \<and> invocations_invariant s"

section \<open>Splitting and joining\<close>

lemma split_scan_not_Nil: "split_scan sep s \<noteq> []"
  by (induction sep s rule: split_scan.induct) (auto simp: Let_def)

lemma join_split_scan: "sep \<noteq> [] \<Longrightarrow> str_join sep (split_scan sep s) = s"
proof (induction sep s rule: split_scan.induct)
  case (1 sep)
  then show ?case by simp
next
  case (2 sep c cs)
  show ?case
  proof (cases "prefix sep (c # cs)")
    case True
    then obtain r where r: "c # cs = sep @ r" by (auto simp: prefix_def)
    with 2 obtain sep' where sep: "sep = c # sep'" by (cases sep) auto
    with r have cs: "cs = sep' @ r" by simp
    have "drop (length sep - 1) cs = r" by (simp add: sep cs)
    with 2 True have ih: "str_join sep (split_scan sep r) = r" by simp
    obtain t ts where ts: "split_scan sep r = t # ts"
      using split_scan_not_Nil[of sep r] by (cases "split_scan sep r") auto
    have "split_scan sep (c # cs) = [] # t # ts"
      using True ts \<open>drop (length sep - 1) cs = r\<close> by simp
    moreover have "str_join sep ([] # t # ts) = sep @ str_join sep (t # ts)" by simp
    ultimately show ?thesis using ih ts r by simp
  next
    case False
    obtain t ts where ts: "split_scan sep cs = t # ts"
      using split_scan_not_Nil[of sep cs] by (cases "split_scan sep cs") auto
    with 2 False have ih: "str_join sep (t # ts) = cs" by simp
    have "str_join sep ((c # t) # ts) = c # str_join sep (t # ts)" by (cases ts) simp_all
    with False ts ih show ?thesis by (simp add: Let_def)
  qed
qed

lemma split_scan_no_occurrence: "\<not> sublist sep s \<Longrightarrow> split_scan sep s = [s]"
proof (induction s)
  case Nil
  then show ?case by simp
next
  case (Cons c cs)
  then have "\<not> prefix sep (c # cs)" "\<not> sublist sep cs"
    by (auto simp: sublist_Cons_right)
  with Cons.IH show ?case by (simp add: Let_def)
qed

lemma prefix_butlast_cut:
  assumes "prefix sep (f @ sep @ r)" and "f \<noteq> []"
  shows "prefix sep (f @ butlast sep)"
proof -
  have len: "length sep \<le> length (f @ butlast sep)" using assms(2) by (cases f) auto
  from assms(1) have "sep = take (length sep) (f @ sep @ r)"
    by (metis append_eq_conv_conj prefix_def)
  also have "f @ sep @ r = (f @ butlast sep) @ (drop (length sep - 1) sep @ r)"
    by (metis append.assoc append_take_drop_id butlast_conv_take)
  also have "take (length sep) \<dots> = take (length sep) (f @ butlast sep)"
    using len by simp
  finally have "sep = take (length sep) (f @ butlast sep)" .
  then show ?thesis by (metis take_is_prefix)
qed

lemma split_scan_field:
  "sep \<noteq> [] \<Longrightarrow> \<not> sublist sep (f @ butlast sep) \<Longrightarrow>
   split_scan sep (f @ sep @ r) = f # split_scan sep r"
proof (induction f)
  case Nil
  then obtain c sep' where sep: "sep = c # sep'" by (cases sep) auto
  then show ?case by simp
next
  case (Cons x f)
  from Cons.prems(2) have np: "\<not> prefix sep ((x # f) @ butlast sep)"
    and ns: "\<not> sublist sep (f @ butlast sep)"
    by (auto simp: sublist_Cons_right)
  have "\<not> prefix sep ((x # f) @ sep @ r)"
    using np prefix_butlast_cut[of sep "x # f" r] by blast
  with Cons.IH[OF Cons.prems(1) ns] show ?case by (simp add: Let_def)
qed


section \<open>Decoding item texts\<close>





text \<open>
  Claim C2. When the delimiter does not occur in \<open>v\<close>, and more generally whenever the
  split yields at most four tokens or a first token that, trimmed, is not the name of a
  text type, decoding returns the default item texts (type raw, every field empty)
  and \<open>v\<close> itself as the remainder.
\<close>

theorem str2item_texts_default:
  "(\<not> sublist d v \<longrightarrow> str2item_texts v d = Inr (ItemTexts_default, v)) \<and>
   (\<forall>tokens. str_split v d = Inr tokens \<and>
        (length tokens \<le> 4 \<or> str_strip (tokens ! 0) \<notin> set ItemTextType_names)
      \<longrightarrow> str2item_texts v d = Inr (ItemTexts_default, v))"
proof (intro conjI allI impI)
  assume n: "\<not> sublist d v"
  then have "d \<noteq> []" by auto
  with n show "str2item_texts v d = Inr (ItemTexts_default, v)"
    by (simp add: str2item_texts_def str_split_def split_scan_no_occurrence)
next
  fix tokens
  assume "str_split v d = Inr tokens \<and>
        (length tokens \<le> 4 \<or> str_strip (tokens ! 0) \<notin> set ItemTextType_names)"
  then show "str2item_texts v d = Inr (ItemTexts_default, v)"
    by (auto simp: str2item_texts_def)
qed

theorem str2item_texts_default_witness:
  "\<not> sublist ''::'' ''just a value''
   \<and> str2item_texts ''just a value'' ''::'' = Inr (ItemTexts_default, ''just a value'')
   \<and> str_split ''menu::1::2::x'' ''::'' = Inr [''menu'', ''1'', ''2'', ''x'']
   \<and> str2item_texts ''menu::1::2::x'' ''::'' = Inr (ItemTexts_default, ''menu::1::2::x'')
   \<and> str_split ''item::1::2::3::4'' ''::'' = Inr [''item'', ''1'', ''2'', ''3'', ''4'']
   \<and> str2item_texts ''item::1::2::3::4'' ''::'' = Inr (ItemTexts_default, ''item::1::2::3::4'')"
proof -
  have a: "\<not> sublist ''::'' ''just a value''" by (simp add: sublist_code)
  have b: "str_split ''menu::1::2::x'' ''::'' = Inr [''menu'', ''1'', ''2'', ''x'']"
    by (simp add: str_split_def)
  have c: "str_split ''item::1::2::3::4'' ''::'' = Inr [''item'', ''1'', ''2'', ''3'', ''4'']"
    by (simp add: str_split_def)
  have c': "str_strip ([''item'', ''1'', ''2'', ''3'', ''4''] ! 0) \<notin> set ItemTextType_names"
    by (simp add: ItemTextType_names_def str_strip_def str_lstrip_def str_rstrip_def isspace_def)
  from a b c c' show ?thesis
    using str2item_texts_default [where d = "''::''" and v = "''just a value''"]
      str2item_texts_default [where d = "''::''" and v = "''menu::1::2::x''"]
      str2item_texts_default [where d = "''::''" and v = "''item::1::2::3::4''"]
    by simp
qed

section \<open>The outcome of a picker\<close>

text \<open>
  Claim C10. \<open>RofiInterface.run_menu\<close> reaches its \<open>return\<close> with \<open>next_action\<close> never
  assigned, and so raises instead of returning, exactly when the wait did not time out,
  the return code is none of 1, 10 and 11 and the output, trimmed on the right, is
  empty; return code 0 with empty output is such an outcome.
\<close>

theorem RofiInterface_run_menu_unassigned:
  "(RofiInterface_run_menu its proc = Inl UnboundLocalError \<longleftrightarrow>
      \<not> timeout_raised proc \<and> returncode proc \<noteq> 1 \<and> returncode proc \<noteq> 10
      \<and> returncode proc \<noteq> 11 \<and> str_rstrip (stdout proc) = [])
   \<and> RofiInterface_run_menu its \<lparr>timeout_raised = False, returncode = 0, stdout = []\<rparr>
       = Inl UnboundLocalError"
  by (auto simp: RofiInterface_run_menu_def Let_def str_rstrip_def QUIT_EXIT_CODE_def
      split: option.splits if_splits)

theorem RofiInterface_run_menu_unassigned_witness:
  "RofiInterface_run_menu
     ([] :: BaseItem list) \<lparr>timeout_raised = False, returncode = 0, stdout = '' ''\<rparr>
   = Inl UnboundLocalError"
  using RofiInterface_run_menu_unassigned
          [of "[] :: BaseItem list" "\<lparr>timeout_raised = False, returncode = 0, stdout = '' ''\<rparr>"]
  by (simp add: str_rstrip_def isspace_def)

text \<open>
  The Rofi adapter corrects its action when a line was reported that matches no item:
  it never returns \<open>selected\<close> without an item.
\<close>

lemma RofiInterface_run_menu_no_null_selection:
  "RofiInterface_run_menu its proc \<noteq> Inr (selected, None)"
  by (auto simp: RofiInterface_run_menu_def Let_def split: option.splits if_splits)

lemma RofiInterface_run_menu_no_match:
  assumes "\<not> timeout_raised proc" and "returncode proc \<noteq> 11"
    and "str_rstrip (stdout proc) \<noteq> []"
    and "get_selected_item its (str_rstrip (stdout proc)) = None"
  shows "RofiInterface_run_menu its proc = Inr (restart, None)"
  using assms by (auto simp: RofiInterface_run_menu_def Let_def split: option.splits if_splits)

text \<open>
  Claim C3 at a concrete input. The only item has the menu line \<open>hello\<close> followed by
  two blanks; the picker reports that line, which the adapter trims on the right, so
  no item matches. The Fzf adapter returns \<open>selected\<close> with no item; the Rofi adapter
  returns \<open>restart\<close>.
\<close>

theorem run_menu_unmatched_line:
  "Interface_run FzfInterface (\<lambda>s. s)
     \<lparr>timeout_raised = False, returncode = 0,
      stdout = ''enter'' @ [CHR 0x0A] @ ''hello  '' @ [CHR 0x0A]\<rparr>
     [\<lparr>item_type = ''Item'',
       texts = \<lparr>type = [], category = [], subcategory = [], status = [],
                text = ''hello  '', menu = []\<rparr>,
       value = [], raw_value = []\<rparr>] 0
   = Inr (selected, None)
   \<and> Interface_run RofiInterface (\<lambda>s. s)
     \<lparr>timeout_raised = False, returncode = 0,
      stdout = ''hello  '' @ [CHR 0x0A]\<rparr>
     [\<lparr>item_type = ''Item'',
       texts = \<lparr>type = [], category = [], subcategory = [], status = [],
                text = ''hello  '', menu = []\<rparr>,
       value = [], raw_value = []\<rparr>] 0
   = Inr (restart, None)"
  by (simp add: Interface_run_def format_items_text_def FzfInterface_run_menu_def
      RofiInterface_run_menu_def str_splitlines_def is_linebreak_def Let_def
      str_rstrip_def isspace_def get_selected_item_def)

section \<open>Menu lines\<close>

lemma fold_max_ge: "a \<le> fold max ns (a::nat)"
  by (induction ns arbitrary: a) (auto intro: order_trans[OF max.cobounded2])

lemma fold_max_mem: "n \<in> set ns \<Longrightarrow> n \<le> fold max ns (a::nat)"
proof (induction ns arbitrary: a)
  case Nil
  then show ?case by simp
next
  case (Cons m ns)
  show ?case
  proof (cases "n = m")
    case True
    have "m \<le> max m a" by simp
    also have "\<dots> \<le> fold max ns (max m a)" by (rule fold_max_ge)
    finally show ?thesis using True by simp
  next
    case False
    with Cons show ?thesis by simp
  qed
qed

lemma max_len_ge: "x \<in> set xs \<Longrightarrow> length (field x) \<le> max_len field xs"
  unfolding max_len_def by (rule fold_max_mem) simp

lemma max_len_Max:
  assumes "xs \<noteq> []"
  shows "max_len field xs = Max ((\<lambda>i. length (field i)) ` set xs)"
proof -
  from assms obtain y ys where xs: "xs = y # ys" by (cases xs) auto
  have "max_len field xs = fold max (map (\<lambda>i. length (field i)) ys) (length (field y))"
    by (simp add: max_len_def xs)
  also have "\<dots> = Max (set (length (field y) # map (\<lambda>i. length (field i)) ys))"
    by (simp only: Max.set_eq_fold)
  finally show ?thesis by (simp add: xs)
qed

lemma length_ljust: "length s \<le> n \<Longrightarrow> length (ljust n s) = n"
  by (simp add: ljust_def)

lemma length_rjust: "length s \<le> n \<Longrightarrow> length (rjust n s) = n"
  by (simp add: rjust_def)

lemma menu_line_layout:
  "menu_line tw cw sw stw xw ft =
     '' '' @ ljust tw (type ft)
     @ (if cw = 0 then [] else '' '' @ rjust cw (category ft))
     @ (if sw = 0 then []
        else if subcategory ft \<noteq> [] then ''/'' @ ljust sw (subcategory ft)
        else replicate (sw + 1) CHR '' '')
     @ (if stw = 0 then [] else ''  '' @ rjust stw (status ft))
     @ (if xw = 0 then [] else ''  '' @ text ft)"
  by (simp add: menu_line_def Let_def)

lemma format_items_text_length: "length (format_items_text f its) = length its"
  by (simp add: format_items_text_def Let_def)

lemma format_items_text_nth_raw:
  assumes "k < length its" and "type (texts (its ! k)) = []"
  shows "menu (texts (format_items_text f its ! k)) = text (texts (its ! k))"
  using assms by (simp add: format_items_text_def Let_def)

lemma format_items_text_nth_non_raw:
  assumes "k < length its" and "type (texts (its ! k)) \<noteq> []"
  shows "menu (texts (format_items_text f its ! k)) =
     (let nr = filter (\<lambda>i. type (texts i) \<noteq> []) its;
          ft = (\<lambda>i. formatted_texts f (texts i))
      in menu_line (max_len (\<lambda>i. type (ft i)) nr) (max_len (\<lambda>i. category (ft i)) nr)
           (max_len (\<lambda>i. subcategory (ft i)) nr) (max_len (\<lambda>i. status (ft i)) nr)
           (max_len (\<lambda>i. text (ft i)) nr) (ft (its ! k)))"
proof -
  have "its ! k \<in> set (filter (\<lambda>i. type (texts i) \<noteq> []) its)"
    using assms by simp
  then have "filter (\<lambda>i. type (texts i) \<noteq> []) its \<noteq> []"
    by (metis empty_iff empty_set)
  then show ?thesis using assms by (simp add: format_items_text_def Let_def)
qed

text \<open>
  Claim C4, as the code has it. Every item keeps its place in the list. The line of a
  raw item is its text. The line of a non-raw item is a blank and the type column,
  left-aligned; then, when categories are present, a blank and the category column,
  right-aligned; when subcategories are present, a slash and the subcategory,
  left-aligned, or blanks of the same width; when statuses are present, two blanks and
  the status column, right-aligned; and when texts are present, two blanks and the
  text as it is, not padded. The type, category, subcategory and status columns have
  exactly the maximal width of their field over the non-raw its. The visible its
  are those whose text is not empty.
\<close>

theorem format_items_text_columns:
  fixes its :: "'a BaseItem_scheme list" and f :: "string \<Rightarrow> string"
  defines "out \<equiv> format_items_text f its"
    and "nr \<equiv> filter (\<lambda>i. type (texts i) \<noteq> []) its"
    and "ft \<equiv> (\<lambda>i. formatted_texts f (texts i))"
  defines "TL \<equiv> Max ((\<lambda>i. length (type (ft i))) ` set nr)"
    and "CL \<equiv> Max ((\<lambda>i. length (category (ft i))) ` set nr)"
    and "SL \<equiv> Max ((\<lambda>i. length (subcategory (ft i))) ` set nr)"
    and "STL \<equiv> Max ((\<lambda>i. length (status (ft i))) ` set nr)"
    and "XL \<equiv> Max ((\<lambda>i. length (text (ft i))) ` set nr)"
  shows "length out = length its
    \<and> (\<forall>k < length its.
         (type (texts (its ! k)) = [] \<longrightarrow>
            menu (texts (out ! k)) = text (texts (its ! k)))
       \<and> (type (texts (its ! k)) \<noteq> [] \<longrightarrow>
            menu (texts (out ! k)) =
              '' '' @ ljust TL (type (ft (its ! k)))
              @ (if CL = 0 then [] else '' '' @ rjust CL (category (ft (its ! k))))
              @ (if SL = 0 then []
                 else if subcategory (ft (its ! k)) \<noteq> []
                   then ''/'' @ ljust SL (subcategory (ft (its ! k)))
                 else replicate (SL + 1) CHR '' '')
              @ (if STL = 0 then [] else ''  '' @ rjust STL (status (ft (its ! k))))
              @ (if XL = 0 then [] else ''  '' @ text (ft (its ! k)))
          \<and> length (ljust TL (type (ft (its ! k)))) = TL
          \<and> length (rjust CL (category (ft (its ! k)))) = CL
          \<and> length (ljust SL (subcategory (ft (its ! k)))) = SL
          \<and> length (rjust STL (status (ft (its ! k)))) = STL
          \<and> length (text (ft (its ! k))) \<le> XL))
    \<and> set (filter visible its) = {i \<in> set its. text (texts i) \<noteq> []}"
proof (intro conjI allI impI)
  show "length out = length its" by (simp add: out_def format_items_text_length)
next
  show "set (filter visible its) = {i \<in> set its. text (texts i) \<noteq> []}"
    by (auto simp: visible_def)
next
  fix k assume "k < length its" "type (texts (its ! k)) = []"
  then show "menu (texts (out ! k)) = text (texts (its ! k))"
    unfolding out_def by (rule format_items_text_nth_raw)
next
  fix k assume k: "k < length its" "type (texts (its ! k)) \<noteq> []"
  then have mem: "its ! k \<in> set nr" by (simp add: nr_def)
  then have ne: "nr \<noteq> []" by (metis empty_iff empty_set)
  note widths = max_len_Max[OF ne, symmetric]
  show "menu (texts (out ! k)) =
              '' '' @ ljust TL (type (ft (its ! k)))
              @ (if CL = 0 then [] else '' '' @ rjust CL (category (ft (its ! k))))
              @ (if SL = 0 then []
                 else if subcategory (ft (its ! k)) \<noteq> []
                   then ''/'' @ ljust SL (subcategory (ft (its ! k)))
                 else replicate (SL + 1) CHR '' '')
              @ (if STL = 0 then [] else ''  '' @ rjust STL (status (ft (its ! k))))
              @ (if XL = 0 then [] else ''  '' @ text (ft (its ! k)))"
    unfolding out_def format_items_text_nth_non_raw[OF k] menu_line_layout
      TL_def CL_def SL_def STL_def XL_def widths
    by (simp add: Let_def nr_def ft_def)
  show "length (ljust TL (type (ft (its ! k)))) = TL"
    unfolding TL_def widths by (rule length_ljust, rule max_len_ge[OF mem])
  show "length (rjust CL (category (ft (its ! k)))) = CL"
    unfolding CL_def widths by (rule length_rjust, rule max_len_ge[OF mem])
  show "length (ljust SL (subcategory (ft (its ! k)))) = SL"
    unfolding SL_def widths by (rule length_ljust, rule max_len_ge[OF mem])
  show "length (rjust STL (status (ft (its ! k)))) = STL"
    unfolding STL_def widths by (rule length_rjust, rule max_len_ge[OF mem])
  show "length (text (ft (its ! k))) \<le> XL"
    unfolding XL_def widths by (rule max_len_ge[OF mem])
qed

theorem format_items_text_columns_witness:
  "menu (texts (format_items_text (\<lambda>s. s)
      [\<lparr>item_type = ''ItemZerotierNetwork'',
        texts = \<lparr>type = ''<menu>'', category = ''Net'', subcategory = [], status = ''on'',
                 text = ''a'', menu = []\<rparr>, value = [], raw_value = []\<rparr>,
       \<lparr>item_type = ''ItemSystemdUnit'',
        texts = \<lparr>type = ''<action>'', category = ''Audio'', subcategory = ''out'', status = [],
                 text = ''abc'', menu = []\<rparr>, value = [], raw_value = []\<rparr>,
       \<lparr>item_type = ''Item'',
        texts = \<lparr>type = [], category = [], subcategory = [], status = [],
                 text = ''plain'', menu = []\<rparr>, value = [], raw_value = []\<rparr>] ! 0))
     = '' <menu>     Net      on  a''
   \<and> menu (texts (format_items_text (\<lambda>s. s)
      [\<lparr>item_type = ''ItemZerotierNetwork'',
        texts = \<lparr>type = ''<menu>'', category = ''Net'', subcategory = [], status = ''on'',
                 text = ''a'', menu = []\<rparr>, value = [], raw_value = []\<rparr>,
       \<lparr>item_type = ''ItemSystemdUnit'',
        texts = \<lparr>type = ''<action>'', category = ''Audio'', subcategory = ''out'', status = [],
                 text = ''abc'', menu = []\<rparr>, value = [], raw_value = []\<rparr>,
       \<lparr>item_type = ''Item'',
        texts = \<lparr>type = [], category = [], subcategory = [], status = [],
                 text = ''plain'', menu = []\<rparr>, value = [], raw_value = []\<rparr>] ! 1))
     = '' <action> Audio/out      abc''
   \<and> menu (texts (format_items_text (\<lambda>s. s)
      [\<lparr>item_type = ''ItemZerotierNetwork'',
        texts = \<lparr>type = ''<menu>'', category = ''Net'', subcategory = [], status = ''on'',
                 text = ''a'', menu = []\<rparr>, value = [], raw_value = []\<rparr>,
       \<lparr>item_type = ''ItemSystemdUnit'',
        texts = \<lparr>type = ''<action>'', category = ''Audio'', subcategory = ''out'', status = [],
                 text = ''abc'', menu = []\<rparr>, value = [], raw_value = []\<rparr>,
       \<lparr>item_type = ''Item'',
        texts = \<lparr>type = [], category = [], subcategory = [], status = [],
                 text = ''plain'', menu = []\<rparr>, value = [], raw_value = []\<rparr>] ! 2))
     = ''plain''"
  (is "menu (texts (format_items_text _ ?its ! 0)) = _ \<and> _")
proof -
  note cols = format_items_text_columns [of "\<lambda>s. s" ?its]
  from cols have 0: "menu (texts (format_items_text (\<lambda>s. s) ?its ! 0))
      = '' <menu>     Net      on  a''"
    by (simp add: formatted_texts_def ljust_def rjust_def str_strip_def str_lstrip_def
        str_rstrip_def isspace_def)
  from cols have 1: "menu (texts (format_items_text (\<lambda>s. s) ?its ! 1))
      = '' <action> Audio/out      abc''"
    by (simp add: formatted_texts_def ljust_def rjust_def str_strip_def str_lstrip_def
        str_rstrip_def isspace_def)
  from cols have 2: "menu (texts (format_items_text (\<lambda>s. s) ?its ! 2)) = ''plain''"
    by simp
  from 0 1 2 show ?thesis by blast
qed

text \<open>
  Claim C4 as it is written fails for the text column: of two its with the texts
  \<open>a\<close> and \<open>abc\<close> the first line ends with \<open>a\<close>; it is not padded to the width 3.
\<close>

theorem format_items_text_text_column_counterexample:
  "map (\<lambda>i. menu (texts i)) (format_items_text (\<lambda>s. s)
      [\<lparr>item_type = ''Item'',
        texts = \<lparr>type = ''<menu>'', category = [], subcategory = [], status = [],
                 text = ''a'', menu = []\<rparr>, value = [], raw_value = []\<rparr>,
       \<lparr>item_type = ''Item'',
        texts = \<lparr>type = ''<menu>'', category = [], subcategory = [], status = [],
                 text = ''abc'', menu = []\<rparr>, value = [], raw_value = []\<rparr>])
   = ['' <menu>  a'', '' <menu>  abc'']
   \<and> '' <menu>  a'' \<noteq> '' <menu>  '' @ ljust 3 ''a''"
  by (simp add: format_items_text_def max_len_def menu_line_def formatted_texts_def Let_def
        ljust_def rjust_def str_strip_def str_lstrip_def str_rstrip_def isspace_def)


section \<open>Showing a menu\<close>

text \<open>The definitions unfolded to evaluate \<open>show\<close> on a concrete menu.\<close>

lemmas show_eval = show_def show_instances_def resolve_texts_def gather_def first_raised_def
  List.map_filter_def interface_class_of_def Interface_run_def format_items_text_def
  max_len_def menu_line_def formatted_texts_def ljust_def rjust_def
  RofiInterface_run_menu_def get_selected_item_def visible_def identifier_def
  show_action_def str_rstrip_def str_lstrip_def str_strip_def isspace_def Let_def

lemma reported_show_action: "reported (show_action lt answer) = Some answer"
  by (auto simp: show_action_def Let_def split: sum.splits option.splits prod.splits)

lemma show_action_loop:
  "lt \<noteq> 0 \<Longrightarrow> show_action lt (Inr (selected, sel)) =
     \<lparr>returned = Inr (''back'', case sel of None \<Rightarrow> [] | Some item \<Rightarrow> identifier item),
      error_logged = False, reported = Some (Inr (selected, sel)), executed = []\<rparr>"
  by (simp add: show_action_def Let_def)

lemma executed_show_action:
  "item \<in> set (executed (show_action lt answer)) \<Longrightarrow>
     answer = Inr (selected, Some item) \<and> lt = 0
     \<and> type (texts item) \<noteq> ItemTextType_value ItemTextType.notification
     \<and> executed (show_action lt answer) = [item]"
  by (auto simp: show_action_def Let_def split: sum.splits option.splits prod.splits if_splits)

lemma show_cases:
  "(reported (show si st f proc c m lid lt) = None \<and> executed (show si st f proc c m lid lt) = [])
   \<or> (\<exists>answer. show si st f proc c m lid lt = show_action lt answer)"
  by (auto simp: show_def split: sum.splits)

text \<open>
  Claim C6. When \<open>show\<close> is called with a loop timeout above zero and the interface
  answers \<open>selected\<close>, \<open>show\<close> returns the action \<open>back\<close> (with the identifier of the
  selected item, if there is one) and no item is executed.
\<close>

theorem show_loop_mode_guard:
  assumes "lt > 0"
    and "reported (show si st f proc c m lid lt) = Some (Inr (selected, sel))"
  shows "returned (show si st f proc c m lid lt)
           = Inr (''back'', case sel of None \<Rightarrow> [] | Some item \<Rightarrow> identifier item)
         \<and> executed (show si st f proc c m lid lt) = []"
proof -
  from show_cases[of si st f proc c m lid lt] assms(2)
  obtain answer where a: "show si st f proc c m lid lt = show_action lt answer" by auto
  with assms(2) have "answer = Inr (selected, sel)" by (simp add: reported_show_action)
  with a assms(1) show ?thesis by (simp add: show_action_loop)
qed

text \<open>
  Claim C7. An item is executed by \<open>show\<close> only when the interface answered \<open>selected\<close>
  with that item, no loop timeout degraded the action, and the resolved type of the
  item is not \<open>notification\<close>; it is then the only item executed.
\<close>

theorem show_executes_selected_only:
  assumes "item \<in> set (executed (show si st f proc c m lid lt))"
  shows "reported (show si st f proc c m lid lt) = Some (Inr (selected, Some item))
         \<and> lt = 0
         \<and> type (texts item) \<noteq> ItemTextType_value ItemTextType.notification
         \<and> executed (show si st f proc c m lid lt) = [item]"
proof -
  from show_cases[of si st f proc c m lid lt] assms
  obtain answer where a: "show si st f proc c m lid lt = show_action lt answer" by auto
  with assms have "item \<in> set (executed (show_action lt answer))" by simp
  from executed_show_action[OF this]
  have "answer = Inr (selected, Some item)" and "lt = 0"
    and "type (texts item) \<noteq> ItemTextType_value ItemTextType.notification"
    and "executed (show_action lt answer) = [item]"
    by blast+
  then show ?thesis unfolding a by (simp only: reported_show_action simp_thms)
qed


theorem show_loop_mode_guard_witness:
  "(5::real) > 0
   \<and> reported (show Inr Inr (\<lambda>s. s)
        \<lparr>timeout_raised = False, returncode = 0, stdout = '' <action>  go''\<rparr>
        \<lparr>interface = ''rofi'', token_separators = [''::'', '',,'', '';;'']\<rparr>
        \<lparr>item_type = ''Menu'', texts = ItemTexts_default, value = [], raw_value = [],
         title = ''Menu'',
         items = [(\<lambda>c v. Inr \<lparr>item_type = ''Item'', texts = ItemTexts_default, value = v,
                    raw_value = v,
                    set_text = (0, Inr \<lparr>type = ''<action>'', category = [], subcategory = [],
                                         status = [], text = ''go'', menu = []\<rparr>),
                    execute = None\<rparr>, ''v'')]\<rparr>
        [] 5)
     = Some (Inr (selected, Some \<lparr>item_type = ''Item'',
               texts = \<lparr>type = ''<action>'', category = [], subcategory = [], status = [],
                        text = ''go'', menu = '' <action>  go''\<rparr>,
               value = ''v'', raw_value = ''v'',
               set_text = (0, Inr \<lparr>type = ''<action>'', category = [], subcategory = [],
                                    status = [], text = ''go'', menu = []\<rparr>),
               execute = None\<rparr>))
   \<and> returned (show Inr Inr (\<lambda>s. s)
        \<lparr>timeout_raised = False, returncode = 0, stdout = '' <action>  go''\<rparr>
        \<lparr>interface = ''rofi'', token_separators = [''::'', '',,'', '';;'']\<rparr>
        \<lparr>item_type = ''Menu'', texts = ItemTexts_default, value = [], raw_value = [],
         title = ''Menu'',
         items = [(\<lambda>c v. Inr \<lparr>item_type = ''Item'', texts = ItemTexts_default, value = v,
                    raw_value = v,
                    set_text = (0, Inr \<lparr>type = ''<action>'', category = [], subcategory = [],
                                         status = [], text = ''go'', menu = []\<rparr>),
                    execute = None\<rparr>, ''v'')]\<rparr>
        [] 5) = Inr (''back'', ''Item:v'')
   \<and> executed (show Inr Inr (\<lambda>s. s)
        \<lparr>timeout_raised = False, returncode = 0, stdout = '' <action>  go''\<rparr>
        \<lparr>interface = ''rofi'', token_separators = [''::'', '',,'', '';;'']\<rparr>
        \<lparr>item_type = ''Menu'', texts = ItemTexts_default, value = [], raw_value = [],
         title = ''Menu'',
         items = [(\<lambda>c v. Inr \<lparr>item_type = ''Item'', texts = ItemTexts_default, value = v,
                    raw_value = v,
                    set_text = (0, Inr \<lparr>type = ''<action>'', category = [], subcategory = [],
                                         status = [], text = ''go'', menu = []\<rparr>),
                    execute = None\<rparr>, ''v'')]\<rparr>
        [] 5) = []"
  (is "?h1 \<and> reported ?r = Some (Inr (selected, Some ?sel)) \<and> _")
proof -
  have h1: ?h1 by simp
  have h2: "reported ?r = Some (Inr (selected, Some ?sel))"
    by (simp add: show_eval)
  from show_loop_mode_guard [OF h1 h2] h1 h2 show ?thesis
    by (simp add: identifier_def)
qed

theorem show_executes_selected_only_witness:
  "executed (show Inr Inr (\<lambda>s. s)
        \<lparr>timeout_raised = False, returncode = 0, stdout = '' <action>  go''\<rparr>
        \<lparr>interface = ''rofi'', token_separators = [''::'', '',,'', '';;'']\<rparr>
        \<lparr>item_type = ''Menu'', texts = ItemTexts_default, value = [], raw_value = [],
         title = ''Menu'',
         items = [(\<lambda>c v. Inr \<lparr>item_type = ''Item'', texts = ItemTexts_default, value = v,
                    raw_value = v,
                    set_text = (0, Inr \<lparr>type = ''<action>'', category = [], subcategory = [],
                                         status = [], text = ''go'', menu = []\<rparr>),
                    execute = None\<rparr>, ''v'')]\<rparr>
        [] 0)
     = [\<lparr>item_type = ''Item'',
               texts = \<lparr>type = ''<action>'', category = [], subcategory = [], status = [],
                        text = ''go'', menu = '' <action>  go''\<rparr>,
               value = ''v'', raw_value = ''v'',
               set_text = (0, Inr \<lparr>type = ''<action>'', category = [], subcategory = [],
                                    status = [], text = ''go'', menu = []\<rparr>),
               execute = None\<rparr>]
   \<and> reported (show Inr Inr (\<lambda>s. s)
        \<lparr>timeout_raised = False, returncode = 0, stdout = '' <action>  go''\<rparr>
        \<lparr>interface = ''rofi'', token_separators = [''::'', '',,'', '';;'']\<rparr>
        \<lparr>item_type = ''Menu'', texts = ItemTexts_default, value = [], raw_value = [],
         title = ''Menu'',
         items = [(\<lambda>c v. Inr \<lparr>item_type = ''Item'', texts = ItemTexts_default, value = v,
                    raw_value = v,
                    set_text = (0, Inr \<lparr>type = ''<action>'', category = [], subcategory = [],
                                         status = [], text = ''go'', menu = []\<rparr>),
                    execute = None\<rparr>, ''v'')]\<rparr>
        [] 0)
     = Some (Inr (selected, Some \<lparr>item_type = ''Item'',
               texts = \<lparr>type = ''<action>'', category = [], subcategory = [], status = [],
                        text = ''go'', menu = '' <action>  go''\<rparr>,
               value = ''v'', raw_value = ''v'',
               set_text = (0, Inr \<lparr>type = ''<action>'', category = [], subcategory = [],
                                    status = [], text = ''go'', menu = []\<rparr>),
               execute = None\<rparr>))
   \<and> type (texts \<lparr>item_type = ''Item'',
               texts = \<lparr>type = ''<action>'', category = [], subcategory = [], status = [],
                        text = ''go'', menu = '' <action>  go''\<rparr>,
               value = ''v'', raw_value = ''v'',
               set_text = (0, Inr \<lparr>type = ''<action>'', category = [], subcategory = [],
                                    status = [], text = ''go'', menu = []\<rparr>),
               execute = None\<rparr>) \<noteq> ''<notification>''"
  (is "executed ?r = [?sel] \<and> _")
proof -
  have h: "?sel \<in> set (executed ?r)"
    by (simp add: show_eval)
  from show_executes_selected_only [OF h] show ?thesis
    by simp
qed

lemma str2item_texts_returns: "d \<noteq> [] \<Longrightarrow> \<exists>r. str2item_texts v d = Inr r"
  by (auto simp: str2item_texts_def str_split_def ItemTextType_by_name_def
      ItemTextType_names_def Let_def)

lemma ItemZerotierNetwork_init_ValueError:
  assumes "delimiter c = Inr d" and "\<And>a n. str_split v d \<noteq> Inr [a, n]"
  shows "ItemZerotierNetwork_init c v = Inl ValueError"
proof (cases "d = []")
  case True
  with assms(1) show ?thesis
    by (simp add: ItemZerotierNetwork_init_def BaseItem_init_def str2item_texts_def
        str_split_def)
next
  case False
  from str2item_texts_returns[OF False, of v] obtain t rest
    where r: "str2item_texts v d = Inr (t, rest)" by (cases) auto
  from False have s: "str_split v d = Inr (split_scan d v)" by (simp add: str_split_def)
  with assms(2) have n: "\<And>a n. split_scan d v \<noteq> [a, n]" by simp
  show ?thesis
    using assms(1) r s n
    by (auto simp: ItemZerotierNetwork_init_def BaseItem_init_def split: list.splits)
qed

lemma fold_earliest_mem:
  "fold (\<lambda>x m. if fst x < fst m then x else m) fs (f :: nat \<times> error) \<in> set (f # fs)"
proof (induction fs arbitrary: f)
  case Nil
  show ?case by simp
next
  case (Cons a fs)
  from Cons[of "if fst a < fst f then a else f"] show ?case
    by (auto split: if_splits)
qed

lemma gather_all_DecodeStringError:
  assumes "\<exists>x \<in> set outcomes. \<exists>t. x = (t, Inl DecodeStringError)"
    and "\<forall>x \<in> set outcomes. \<forall>t e. x = (t, Inl e) \<longrightarrow> e = DecodeStringError"
  shows "gather outcomes = Inl DecodeStringError"
proof -
  let ?fs = "List.map_filter (\<lambda>(t, r). case r of Inl e \<Rightarrow> Some (t, e) | Inr _ \<Rightarrow> None) outcomes"
  have set_fs: "set ?fs = {(t, e). (t, Inl e) \<in> set outcomes}"
    by (auto simp: List.map_filter_def split: sum.splits prod.splits) force
  from assms(1) obtain t where "(t, DecodeStringError) \<in> set ?fs"
    unfolding set_fs by auto
  then obtain g gs where fs: "?fs = g # gs" by (cases ?fs) auto
  have "fold (\<lambda>x m. if fst x < fst m then x else m) gs g \<in> set ?fs"
    unfolding fs by (rule fold_earliest_mem)
  then have "snd (fold (\<lambda>x m. if fst x < fst m then x else m) gs g) = DecodeStringError"
    unfolding set_fs using assms(2) by (auto simp: case_prod_beta)
  then show ?thesis by (simp add: gather_def fs first_raised_def)
qed

lemma instantiate_first_raises:
  "klass c v = Inl e \<Longrightarrow> instantiate c ((klass, v) # rest) = Inl e"
  by simp

text \<open>
  Claim C5, as the code has it. The Zerotier item requires exactly two fields: built
  from a value that does not split in two at the delimiter, its constructor raises
  \<open>ValueError\<close>. The children are instantiated before the \<open>try\<close> block of \<open>show\<close>, so
  an exception of a constructor is raised by \<open>show\<close>. When the exception that the
  gathering of the texts raises is \<open>DecodeStringError\<close> (as it is when every child that
  fails raises it), \<open>show\<close> logs an error and returns the pair of two empty strings,
  without running the interface or executing an item; any other exception raised
  there is raised by \<open>show\<close>.
\<close>

theorem show_decode_failures:
  "(\<forall>d. delimiter c = Inr d \<and> (\<forall>a n. str_split v d \<noteq> Inr [a, n]) \<longrightarrow>
       ItemZerotierNetwork_init c v = Inl ValueError
       \<and> instantiate c ((ItemZerotierNetwork_class text_outcome execute_outcome, v) # rest)
           = Inl ValueError)
   \<and> (\<forall>e. show_instances si st c m = Inl e \<longrightarrow>
       show si st f proc c m lid lt
         = \<lparr>returned = Inl e, error_logged = False, reported = None, executed = []\<rparr>)
   \<and> (\<forall>insts. show_instances si st c m = Inr insts
         \<and> resolve_texts insts = Inl DecodeStringError \<longrightarrow>
       show si st f proc c m lid lt
         = \<lparr>returned = Inr ([], []), error_logged = True, reported = None, executed = []\<rparr>)
   \<and> (\<forall>insts e. show_instances si st c m = Inr insts
         \<and> resolve_texts insts = Inl e \<and> e \<noteq> DecodeStringError \<longrightarrow>
       show si st f proc c m lid lt
         = \<lparr>returned = Inl e, error_logged = False, reported = None, executed = []\<rparr>)
   \<and> (\<forall>insts. (\<exists>i \<in> set insts. \<exists>t. set_text i = (t, Inl DecodeStringError))
         \<and> (\<forall>i \<in> set insts. \<forall>t e. set_text i = (t, Inl e) \<longrightarrow> e = DecodeStringError) \<longrightarrow>
       resolve_texts insts = Inl DecodeStringError)"
proof (intro conjI allI impI)
  fix d assume h: "delimiter c = Inr d \<and> (\<forall>a n. str_split v d \<noteq> Inr [a, n])"
  then show z: "ItemZerotierNetwork_init c v = Inl ValueError"
    by (intro ItemZerotierNetwork_init_ValueError[of c d v]) simp_all
  then have "ItemZerotierNetwork_class text_outcome execute_outcome c v = Inl ValueError"
    by (simp add: ItemZerotierNetwork_class_def)
  then show "instantiate c ((ItemZerotierNetwork_class text_outcome execute_outcome, v) # rest)
           = Inl ValueError"
    by (rule instantiate_first_raises)
next
  fix e assume "show_instances si st c m = Inl e"
  then show "show si st f proc c m lid lt
         = \<lparr>returned = Inl e, error_logged = False, reported = None, executed = []\<rparr>"
    by (simp add: show_def)
next
  fix insts assume "show_instances si st c m = Inr insts
         \<and> resolve_texts insts = Inl DecodeStringError"
  then show "show si st f proc c m lid lt
         = \<lparr>returned = Inr ([], []), error_logged = True, reported = None, executed = []\<rparr>"
    by (simp add: show_def)
next
  fix insts e assume "show_instances si st c m = Inr insts
         \<and> resolve_texts insts = Inl e \<and> e \<noteq> DecodeStringError"
  then show "show si st f proc c m lid lt
         = \<lparr>returned = Inl e, error_logged = False, reported = None, executed = []\<rparr>"
    by (simp add: show_def)
next
  fix insts :: "Instance list"
  assume h: "(\<exists>i \<in> set insts. \<exists>t. set_text i = (t, Inl DecodeStringError))
         \<and> (\<forall>i \<in> set insts. \<forall>t e. set_text i = (t, Inl e) \<longrightarrow> e = DecodeStringError)"
  have "gather (map set_text insts) = Inl DecodeStringError"
    by (rule gather_all_DecodeStringError) (use h in auto)
  then show "resolve_texts insts = Inl DecodeStringError"
    by (simp add: resolve_texts_def)
qed

text \<open>
  Claim C5 as it is written fails: a Zerotier child whose value has one field makes
  \<open>show\<close> raise \<open>ValueError\<close>; no \<open>DecodeStringError\<close> occurs and nothing is converted.
\<close>

theorem show_ValueError_counterexample:
  "ItemZerotierNetwork_init \<lparr>interface = ''rofi'', token_separators = [''::'', '',,'', '';;'']\<rparr> ''abc'' = Inl ValueError
   \<and> (show Inr Inr (\<lambda>s. s)
        \<lparr>timeout_raised = False, returncode = 0, stdout = []\<rparr>
        \<lparr>interface = ''rofi'', token_separators = [''::'', '',,'', '';;'']\<rparr>
        \<lparr>item_type = ''Menu'', texts = ItemTexts_default, value = [], raw_value = [],
         title = ''Menu'',
         items = [(ItemZerotierNetwork_class (0, Inr ItemTexts_default) None, ''abc'')]\<rparr>
        [] 0)
     = \<lparr>returned = Inl ValueError, error_logged = False, reported = None, executed = []\<rparr>
   \<and> ItemZerotierNetwork_init \<lparr>interface = ''rofi'', token_separators = [''::'', '',,'', '';;'']\<rparr> ''abc'' \<noteq> Inl DecodeStringError
   \<and> returned (show Inr Inr (\<lambda>s. s)
        \<lparr>timeout_raised = False, returncode = 0, stdout = []\<rparr>
        \<lparr>interface = ''rofi'', token_separators = [''::'', '',,'', '';;'']\<rparr>
        \<lparr>item_type = ''Menu'', texts = ItemTexts_default, value = [], raw_value = [],
         title = ''Menu'',
         items = [(ItemZerotierNetwork_class (0, Inr ItemTexts_default) None, ''abc'')]\<rparr>
        [] 0) \<noteq> Inr ([], [])"
  by (simp add: show_eval ItemZerotierNetwork_class_def ItemZerotierNetwork_init_def
      BaseItem_init_def delimiter_def str2item_texts_def str_split_def)

theorem show_decode_failures_witness:
  "(show Inr Inr (\<lambda>s. s)
        \<lparr>timeout_raised = False, returncode = 0, stdout = []\<rparr>
        \<lparr>interface = ''rofi'', token_separators = [''::'', '',,'', '';;'']\<rparr>
        \<lparr>item_type = ''Menu'', texts = ItemTexts_default, value = [], raw_value = [],
         title = ''Menu'',
         items = [(ItemZerotierNetwork_class (0, Inl DecodeStringError) None, ''abc'')]\<rparr>
        [] 0)
     = \<lparr>returned = Inl ValueError, error_logged = False, reported = None, executed = []\<rparr>
   \<and> (show Inr Inr (\<lambda>s. s)
        \<lparr>timeout_raised = False, returncode = 0, stdout = []\<rparr>
        \<lparr>interface = ''rofi'', token_separators = [''::'', '',,'', '';;'']\<rparr>
        \<lparr>item_type = ''Menu'', texts = ItemTexts_default, value = [], raw_value = [],
         title = ''Menu'',
         items = [(ItemZerotierNetwork_class (0, Inl DecodeStringError) None, ''abc::def'')]\<rparr>
        [] 0)
     = \<lparr>returned = Inr ([], []), error_logged = True, reported = None, executed = []\<rparr>
   \<and> (show Inr Inr (\<lambda>s. s)
        \<lparr>timeout_raised = False, returncode = 0, stdout = []\<rparr>
        \<lparr>interface = ''rofi'', token_separators = [''::'', '',,'', '';;'']\<rparr>
        \<lparr>item_type = ''Menu'', texts = ItemTexts_default, value = [], raw_value = [],
         title = ''Menu'',
         items = [(ItemZerotierNetwork_class (0, Inl KeyError) None, ''abc::def'')]\<rparr>
        [] 0)
     = \<lparr>returned = Inl KeyError, error_logged = False, reported = None, executed = []\<rparr>"
  (is "show Inr Inr ?f ?p ?c ?m1 [] 0 = _ \<and> show Inr Inr ?f ?p ?c ?m2 [] 0 = _
       \<and> show Inr Inr ?f ?p ?c ?m3 [] 0 = _")
proof -
  have d: "delimiter ?c = Inr ''::'' \<and> (\<forall>a n. str_split ''abc'' ''::'' \<noteq> Inr [a, n])"
    by (simp add: delimiter_def str_split_def)
  note t1 = show_decode_failures [where c = ?c and v = "''abc''" and rest = "[]"
      and text_outcome = "(0, Inl DecodeStringError)" and execute_outcome = None
      and si = Inr and st = Inr and m = ?m1 and f = ?f and proc = ?p and lid = "[]" and lt = 0]
  from t1 d have "instantiate ?c [(ItemZerotierNetwork_class (0, Inl DecodeStringError) None, ''abc'')]
      = Inl ValueError" by blast
  then have "show_instances Inr Inr ?c ?m1 = Inl ValueError"
    by (simp add: show_instances_def)
  with t1 have 1: "show Inr Inr ?f ?p ?c ?m1 [] 0
     = \<lparr>returned = Inl ValueError, error_logged = False, reported = None, executed = []\<rparr>"
    by blast
  let ?i2 = "\<lparr>item_type = ''ItemZerotierNetwork'', texts = ItemTexts_default,
              value = ''abc::def'', raw_value = ''abc::def'',
              set_text = (0, Inl DecodeStringError), execute = None\<rparr>"
  have s2: "show_instances Inr Inr ?c ?m2 = Inr [?i2]"
    by (simp add: show_instances_def ItemZerotierNetwork_class_def ItemZerotierNetwork_init_def
        BaseItem_init_def delimiter_def str2item_texts_def str_split_def
        BaseItem.extend_def BaseItem.truncate_def Instance.fields_def
        ItemZerotierNetwork.fields_def)
  note t2 = show_decode_failures [where c = ?c and v = "''abc''" and rest = "[]"
      and text_outcome = "(0, Inl DecodeStringError)" and execute_outcome = None
      and si = Inr and st = Inr and m = ?m2 and f = ?f and proc = ?p and lid = "[]" and lt = 0]
  from t2 have "resolve_texts [?i2] = Inl DecodeStringError"
    by simp
  with t2 s2 have 2: "show Inr Inr ?f ?p ?c ?m2 [] 0
     = \<lparr>returned = Inr ([], []), error_logged = True, reported = None, executed = []\<rparr>"
    by blast
  let ?i3 = "\<lparr>item_type = ''ItemZerotierNetwork'', texts = ItemTexts_default,
              value = ''abc::def'', raw_value = ''abc::def'',
              set_text = (0, Inl KeyError), execute = None\<rparr>"
  have s3: "show_instances Inr Inr ?c ?m3 = Inr [?i3]"
    by (simp add: show_instances_def ItemZerotierNetwork_class_def ItemZerotierNetwork_init_def
        BaseItem_init_def delimiter_def str2item_texts_def str_split_def
        BaseItem.extend_def BaseItem.truncate_def Instance.fields_def
        ItemZerotierNetwork.fields_def)
  have r3: "resolve_texts [?i3] = Inl KeyError \<and> KeyError \<noteq> DecodeStringError"
    by (simp add: resolve_texts_def gather_def first_raised_def List.map_filter_def)
  note t3 = show_decode_failures [where c = ?c and v = "''abc''" and rest = "[]"
      and text_outcome = "(0, Inl DecodeStringError)" and execute_outcome = None
      and si = Inr and st = Inr and m = ?m3 and f = ?f and proc = ?p and lid = "[]" and lt = 0]
  from t3 s3 r3 have 3: "show Inr Inr ?f ?p ?c ?m3 [] 0
     = \<lparr>returned = Inl KeyError, error_logged = False, reported = None, executed = []\<rparr>"
    by blast
  from 1 2 3 show ?thesis by blast
qed

section \<open>Lowering the separators of an inline child\<close>

lemma remap_scan_Nil: "remap_scan [] v = v"
  by (induction v) simp_all

lemma replace_scan_skip:
  "u \<noteq> [] \<Longrightarrow> set w \<inter> set u = {} \<Longrightarrow>
   replace_scan u l (w @ rest) = w @ replace_scan u l rest"
proof (induction w)
  case Nil
  then show ?case by simp
next
  case (Cons x w)
  from Cons.prems obtain y u' where u: "u = y # u'" by (cases u) auto
  with Cons.prems have "x \<noteq> y" by auto
  then have "\<not> prefix u (x # w @ rest)" by (simp add: u)
  with Cons show ?case by simp
qed

lemma prefix_replace_scan:
  "u \<noteq> [] \<Longrightarrow> l \<noteq> [] \<Longrightarrow> set u' \<inter> set u = {} \<Longrightarrow> set u' \<inter> set l = {} \<Longrightarrow>
   prefix u' (replace_scan u l s) \<longleftrightarrow> prefix u' s"
proof (induction s arbitrary: u')
  case Nil
  then show ?case by simp
next
  case (Cons c cs)
  show ?case
  proof (cases u')
    case Nil
    then show ?thesis by simp
  next
    case u': (Cons x u'')
    from Cons.prems obtain y ur where u: "u = y # ur" by (cases u) auto
    from Cons.prems obtain z lr where l: "l = z # lr" by (cases l) auto
    from Cons.prems u' u l have xy: "x \<noteq> y" and xz: "x \<noteq> z" by auto
    show ?thesis
    proof (cases "prefix u (c # cs)")
      case True
      then have "c = y" by (simp add: u)
      with True xy xz show ?thesis by (simp add: u' l)
    next
      case False
      have "set u'' \<inter> set u = {}" "set u'' \<inter> set l = {}"
        using Cons.prems u' by auto
      from Cons.IH[OF Cons.prems(1,2) this] False show ?thesis
        by (simp add: u')
    qed
  qed
qed

lemma remap_scan_skip:
  "\<forall>(u', l') \<in> set ps. set l \<inter> set u' = {} \<Longrightarrow>
   remap_scan ps (l @ rest) = l @ remap_scan ps rest"
proof (induction l)
  case Nil
  then show ?case by simp
next
  case (Cons x l)
  have "find (\<lambda>(upper, lower). upper \<noteq> [] \<and> prefix upper (x # l @ rest)) ps = None"
  proof -
    have "\<not> (upper \<noteq> [] \<and> prefix upper (x # l @ rest))" if "(upper, lower) \<in> set ps"
      for upper lower
    proof
      assume a: "upper \<noteq> [] \<and> prefix upper (x # l @ rest)"
      then obtain y ur where "upper = y # ur" by (cases upper) auto
      with a have "x \<in> set upper" by simp
      moreover from Cons.prems that have "set (x # l) \<inter> set upper = {}" by auto
      ultimately show False by auto
    qed
    then show ?thesis by (auto simp: find_None_iff)
  qed
  moreover from Cons.prems have "\<forall>(u', l') \<in> set ps. set l \<inter> set u' = {}" by auto
  ultimately show ?case using Cons.IH by simp
qed

lemma remap_scan_replace_first:
  assumes "u \<noteq> []" and "l \<noteq> []"
    and "\<forall>(u', l') \<in> set ps. set u \<inter> set u' = {} \<and> set l \<inter> set u' = {}"
  shows "remap_scan ((u, l) # ps) v = remap_scan ps (replace_scan u l v)"
proof (induction v rule: length_induct)
  case (1 v)
  show ?case
  proof (cases v)
    case Nil
    then show ?thesis by simp
  next
    case v: (Cons c cs)
    let ?P = "\<lambda>s. (\<lambda>(upper, lower). upper \<noteq> [] \<and> prefix upper s)"
    show ?thesis
    proof (cases "prefix u (c # cs)")
      case True
      have "length (drop (length u - 1) cs) < length v" by (simp add: v)
      with 1 have ih: "remap_scan ((u, l) # ps) (drop (length u - 1) cs)
          = remap_scan ps (replace_scan u l (drop (length u - 1) cs))" by blast
      have "\<forall>(u', l') \<in> set ps. set l \<inter> set u' = {}" using assms(3) by auto
      from remap_scan_skip[OF this] True ih assms(1) show ?thesis
        by (simp add: v)
    next
      case False
      have same: "?P (c # replace_scan u l cs) p = ?P (c # cs) p" if "p \<in> set ps" for p
      proof -
        obtain u' l' where p: "p = (u', l')" by (cases p)
        with that assms(3) have d: "set u' \<inter> set u = {}" "set u' \<inter> set l = {}" by auto
        from prefix_replace_scan[OF assms(1,2) d, of "c # cs"] False
        show ?thesis by (simp add: p)
      qed
      then have find_eq: "find (?P (c # replace_scan u l cs)) ps = find (?P (c # cs)) ps"
        by (intro find_cong) auto
      show ?thesis
      proof (cases "find (?P (c # cs)) ps")
        case None
        from 1 have "remap_scan ((u, l) # ps) cs = remap_scan ps (replace_scan u l cs)"
          by (simp add: v)
        with None find_eq False show ?thesis by (simp add: v)
      next
        case (Some p)
        obtain u' l' where p: "p = (u', l')" by (cases p)
        from Some have mem: "(u', l') \<in> set ps" and m: "u' \<noteq> []" "prefix u' (c # cs)"
          by (auto simp: find_Some_iff p) (metis nth_mem)
        then obtain rest where r: "c # cs = u' @ rest" by (auto simp: prefix_def)
        with m obtain w where u': "u' = c # w" and cs: "cs = w @ rest" by (cases u') auto
        from mem assms(3) have "set u \<inter> set u' = {}" by blast
        then have "set w \<inter> set u = {}" by (auto simp: u')
        from replace_scan_skip[OF assms(1) this]
        have rs: "replace_scan u l cs = w @ replace_scan u l rest" by (simp add: cs)
        have "length rest < length v" by (simp add: v cs)
        with 1 have ih: "remap_scan ((u, l) # ps) rest = remap_scan ps (replace_scan u l rest)"
          by blast
        have "remap_scan ((u, l) # ps) (c # cs) = l' @ remap_scan ((u, l) # ps) rest"
          using False Some by (simp add: p u' cs)
        moreover have "remap_scan ps (c # replace_scan u l cs)
            = l' @ remap_scan ps (replace_scan u l rest)"
          using Some find_eq by (simp add: p u' rs)
        ultimately show ?thesis using False ih by (simp add: v)
      qed
    qed
  qed
qed

lemma fold_replace_remap_scan:
  assumes "[] \<notin> set seps"
    and "sorted_wrt (\<lambda>a b. set a \<inter> set b = {}) seps"
  shows "fold (\<lambda>(upper, lower) acc. str_replace acc upper lower) (zip (tl seps) seps) v
           = remap_scan (zip (tl seps) seps) v"
  using assms
proof (induction seps arbitrary: v rule: induct_list012)
  case 1
  then show ?case by (simp add: remap_scan_Nil)
next
  case (2 a)
  then show ?case by (simp add: remap_scan_Nil)
next
  case (3 a b rest)
  let ?ps = "zip (tl (b # rest)) (b # rest)"
  from 3(3,4) have ne: "b \<noteq> []" "a \<noteq> []" by auto
  have disj: "\<forall>(u', l') \<in> set ?ps. set b \<inter> set u' = {} \<and> set a \<inter> set u' = {}"
  proof -
    have "u' \<in> set rest" if "(u', l') \<in> set ?ps" for u' l'
      using that by (auto dest: set_zip_leftD)
    with 3(4) show ?thesis by auto
  qed
  from 3(3,4) have "[] \<notin> set (b # rest)"
    and "sorted_wrt (\<lambda>a b. set a \<inter> set b = {}) (b # rest)" by auto
  from 3(2)[OF this]
  have ih: "fold (\<lambda>(upper, lower) acc. str_replace acc upper lower) ?ps w = remap_scan ?ps w"
    for w .
  have "fold (\<lambda>(upper, lower) acc. str_replace acc upper lower)
          (zip (tl (a # b # rest)) (a # b # rest)) v
        = fold (\<lambda>(upper, lower) acc. str_replace acc upper lower) ?ps (replace_scan b a v)"
    using ne by (simp add: str_replace_def)
  also have "\<dots> = remap_scan ?ps (replace_scan b a v)" by (rule ih)
  also have "\<dots> = remap_scan ((b, a) # ?ps) v"
    by (rule remap_scan_replace_first[OF ne disj, symmetric])
  finally show ?case by simp
qed

lemma levels_as_zip:
  "map (\<lambda>level. (seps ! (level + 1), seps ! level)) [0..<length seps - 1] = zip (tl seps) seps"
  by (rule nth_equalityI) (auto simp: nth_tl)

lemma fold_levels_remap_down:
  assumes "[] \<notin> set seps"
    and "\<forall>i j. i < j \<longrightarrow> j < length seps \<longrightarrow> set (seps ! i) \<inter> set (seps ! j) = {}"
  shows "fold (\<lambda>level inner_value. str_replace inner_value (seps ! (level + 1)) (seps ! level))
           [0..<length seps - 1] v = remap_down seps v"
proof -
  have "fold (\<lambda>level inner_value. str_replace inner_value (seps ! (level + 1)) (seps ! level))
           [0..<length seps - 1] v
        = fold (\<lambda>(upper, lower) acc. str_replace acc upper lower)
            (map (\<lambda>level. (seps ! (level + 1), seps ! level)) [0..<length seps - 1]) v"
    by (simp add: fold_map comp_def)
  also have "\<dots> = fold (\<lambda>(upper, lower) acc. str_replace acc upper lower) (zip (tl seps) seps) v"
    by (simp only: levels_as_zip)
  also have "\<dots> = remap_scan (zip (tl seps) seps) v"
    using assms by (intro fold_replace_remap_scan) (auto simp: sorted_wrt_iff_nth_less)
  finally show ?thesis by (simp add: remap_down_def)
qed

text \<open>
  Claim C8, as the code has it. Let there be at least two separators, none of them
  empty and no two of them sharing a character (as with the default \<open>::\<close>, \<open>,,\<close>,
  \<open>;;\<close>), and let the separator of level 1 not occur in \<open>name\<close>, also not across the
  boundary to the separator that follows it. Then for the entry \<open>name + sep1 + v\<close>,
  \<open>get_item_type_value\<close> returns the class registered for \<open>name\<close> together with \<open>v\<close>
  in which every separator of a level \<open>i + 1\<close> is re-mapped to the separator of level
  \<open>i\<close>; where \<open>get_item_class\<close> raises for \<open>name\<close> (the process ends for an unknown
  name, the import fails for \<open>item\<close>, \<open>audiomenu\<close> and \<open>syncthingmenu\<close>), it raises the
  same.
\<close>

theorem get_item_type_value_remaps:
  assumes "2 \<le> length seps"
    and "[] \<notin> set seps"
    and "\<forall>i j. i < j \<longrightarrow> j < length seps \<longrightarrow> set (seps ! i) \<inter> set (seps ! j) = {}"
    and "\<not> sublist (seps ! 1) (name @ butlast (seps ! 1))"
  shows "get_item_type_value (name @ seps ! 1 @ v) seps =
           (case get_item_class name of
              Inl e \<Rightarrow> Inl e
            | Inr cls \<Rightarrow> Inr (cls, remap_down seps v))"
proof -
  from assms(1,2) have ne: "seps ! 1 \<noteq> []" by (metis nth_mem less_le_trans one_less_numeral_iff semiring_norm(76))
  have "split_scan (seps ! 1) (name @ seps ! 1 @ v) = name # split_scan (seps ! 1) v"
    by (rule split_scan_field[OF ne assms(4)])
  with ne have sp: "str_split (name @ seps ! 1 @ v) (seps ! 1) = Inr (name # split_scan (seps ! 1) v)"
    by (simp add: str_split_def)
  have jn: "str_join (seps ! 1) (split_scan (seps ! 1) v) = v"
    by (rule join_split_scan[OF ne])
  show ?thesis
    using assms(1) sp jn fold_levels_remap_down[OF assms(2,3)]
    by (simp add: get_item_type_value_def Let_def split: sum.splits)
qed

theorem get_item_type_value_remaps_witness:
  "get_item_type_value (''zerotiernetwork'' @ [''::'', '',,'', '';;''] ! 1 @ ''a,,b;;c'')
     [''::'', '',,'', '';;'']
     = Inr (ItemZerotierNetwork, ''a::b,,c'')"
proof -
  have 1: "2 \<le> length [''::'', '',,'', '';;'']" by simp
  have 2: "[] \<notin> set [''::'', '',,'', '';;'']" by simp
  have 3: "\<forall>i j. i < j \<longrightarrow> j < length [''::'', '',,'', '';;''] \<longrightarrow>
             set ([''::'', '',,'', '';;''] ! i) \<inter> set ([''::'', '',,'', '';;''] ! j) = {}"
    by (simp add: less_Suc_eq numeral_3_eq_3 nth_Cons' all_conj_distrib)
  have 4: "\<not> sublist ([''::'', '',,'', '';;''] ! 1) (''zerotiernetwork'' @ butlast ([''::'', '',,'', '';;''] ! 1))"
    by (simp add: sublist_code)
  from get_item_type_value_remaps [OF 1 2 3 4, of "''a,,b;;c''"] show ?thesis
    by (simp add: get_item_class_def str_lower_def lower_char_def str_strip_def str_lstrip_def
        str_rstrip_def isspace_def remap_down_def Let_def)
qed

text \<open>
  Claim C8 as it is written, for any separators, fails: the code replaces level by
  level, and with the separators \<open>;;\<close>, \<open>,\<close>, \<open>;\<close> the separator \<open>;;\<close> written for a
  \<open>,\<close> of the value is itself taken for two separators of level 2 and replaced again.
\<close>

theorem get_item_type_value_cascade_counterexample:
  "get_item_type_value (''zerotiernetwork'' @ ['';;'', '','', '';''] ! 1 @ ''a,b'')
     ['';;'', '','', '';'']
     = Inr (ItemZerotierNetwork, ''a,,b'')
   \<and> remap_down ['';;'', '','', '';''] ''a,b'' = ''a;;b''
   \<and> get_item_type_value (''zerotiernetwork'' @ ['';;'', '','', '';''] ! 1 @ ''a,b'')
     ['';;'', '','', '';'']
     \<noteq> Inr (ItemZerotierNetwork, remap_down ['';;'', '','', '';''] ''a,b'')"
  by (simp add: get_item_type_value_def str_split_def get_item_class_def str_lower_def
      lower_char_def str_strip_def str_lstrip_def str_rstrip_def isspace_def remap_down_def
      str_replace_def Let_def upt_rec)

section \<open>Concurrent calls for the shared data\<close>

lemma in_lock_simps [simp]:
  "in_lock Waiting = False" "in_lock Entered = True" "in_lock (Computing n) = True"
  "in_lock Left = False" "in_lock (Returned v) = False" "in_lock (Raised e) = False"
  by (simp_all add: in_lock_def)

lemma shared_invariant_cleared: "shared_invariant (cleared K)"
  by (simp add: shared_invariant_def lock_invariant_def invocations_invariant_def
      raised_calls_def is_raised_def cleared_def)

lemma lock_exclusive:
  assumes "lock_invariant s" and "t < length (calls s)" and "in_lock (calls s ! t)"
  shows "\<forall>u < length (calls s). u \<noteq> t \<longrightarrow> \<not> in_lock (calls s ! u)"
  using assms unfolding lock_invariant_def by (metis option.inject)

lemma lock_invariant_step:
  assumes "lock_invariant s"
  shows "lock_invariant (get_shared_data_step f t s)"
proof (cases "length (calls s) \<le> t")
  case True
  with assms show ?thesis by (simp add: get_shared_data_step_def)
next
  case False
  then have t: "t < length (calls s)" by simp
  show ?thesis
  proof (cases "calls s ! t")
    case Waiting
    with assms t show ?thesis
      unfolding lock_invariant_def get_shared_data_step_def
      by (auto simp: nth_list_update split: option.splits)
  next
    case Entered
    with assms t show ?thesis
      unfolding lock_invariant_def get_shared_data_step_def
      by (auto simp: nth_list_update split: option.splits)
  next
    case (Computing n)
    with lock_exclusive[OF assms t]
    have "\<forall>u < length (calls s). u \<noteq> t \<longrightarrow> (\<forall>m. calls s ! u \<noteq> Computing m)"
      by (metis in_lock_simps(3))
    with Computing assms t show ?thesis
      unfolding lock_invariant_def get_shared_data_step_def
      by (auto simp: nth_list_update split: option.splits sum.splits)
  next
    case Left
    with assms t show ?thesis
      unfolding lock_invariant_def get_shared_data_step_def
      by (auto simp: nth_list_update split: option.splits)
  next
    case (Returned v)
    with assms t show ?thesis by (simp add: get_shared_data_step_def)
  next
    case (Raised e)
    with assms t show ?thesis by (simp add: get_shared_data_step_def)
  qed
qed

lemma length_calls_step [simp]:
  "length (calls (get_shared_data_step f t s)) = length (calls s)"
  by (simp add: get_shared_data_step_def split: call.splits option.splits sum.splits)

lemma is_raised_simps [simp]:
  "is_raised Waiting = False" "is_raised Entered = False" "is_raised (Computing n) = False"
  "is_raised Left = False" "is_raised (Returned v) = False" "is_raised (Raised e) = True"
  by (simp_all add: is_raised_def)

lemma filter_length_update:
  "t < length cs \<Longrightarrow>
   length (filter P (cs[t := c])) + (if P (cs ! t) then 1 else 0)
     = length (filter P cs) + (if P c then 1 else 0)"
proof (induction cs arbitrary: t)
  case Nil
  then show ?case by simp
next
  case (Cons x cs)
  show ?case
  proof (cases t)
    case 0
    then show ?thesis by simp
  next
    case (Suc u)
    with Cons.prems have "u < length cs" by simp
    from Cons.IH[OF this] Suc show ?thesis by simp
  qed
qed

lemma raised_calls_same:
  assumes "t < length (calls s)" and "\<not> is_raised (calls s ! t)" and "\<not> is_raised c"
  shows "length (filter is_raised ((calls s)[t := c])) = raised_calls s"
  using filter_length_update[OF assms(1), of is_raised c] assms(2,3)
  by (simp add: raised_calls_def)

lemma raised_calls_more:
  assumes "t < length (calls s)" and "\<not> is_raised (calls s ! t)"
  shows "length (filter is_raised ((calls s)[t := Raised e])) = Suc (raised_calls s)"
  using filter_length_update[OF assms(1), of is_raised "Raised e"] assms(2)
  by (simp add: raised_calls_def)

lemma invocations_invariant_step:
  assumes li: "lock_invariant s" and ii: "invocations_invariant s"
  shows "invocations_invariant (get_shared_data_step f t s)"
proof (cases "length (calls s) \<le> t")
  case True
  with ii show ?thesis by (simp add: get_shared_data_step_def)
next
  case False
  then have t: "t < length (calls s)" by simp
  from ii have inv: "invocations s =
      raised_calls s +
      (if shared s \<noteq> None \<or> (\<exists>u < length (calls s). \<exists>n. calls s ! u = Computing n)
       then 1 else 0)"
    by (simp add: invocations_invariant_def)
  show ?thesis
  proof (cases "calls s ! t")
    case Waiting
    show ?thesis
    proof (cases "lock s")
      case None
      with li have "\<forall>u < length (calls s). \<forall>m. calls s ! u \<noteq> Computing m"
        unfolding lock_invariant_def by (metis in_lock_simps(3) option.distinct(1))
      with None Waiting inv t raised_calls_same[OF t, of Entered] show ?thesis
        unfolding get_shared_data_step_def invocations_invariant_def
        by (auto simp: nth_list_update raised_calls_def)
    next
      case (Some a)
      with Waiting ii t show ?thesis by (simp add: get_shared_data_step_def)
    qed
  next
    case Entered
    with lock_exclusive[OF li t]
    have others: "\<forall>u < length (calls s). u \<noteq> t \<longrightarrow> (\<forall>m. calls s ! u \<noteq> Computing m)"
      by (metis in_lock_simps(2,3))
    show ?thesis
    proof (cases "shared s")
      case None
      with others Entered inv t raised_calls_same[OF t, of "Computing (invocations s)"]
      show ?thesis
        unfolding get_shared_data_step_def invocations_invariant_def
        by (auto simp: nth_list_update raised_calls_def)
    next
      case (Some v)
      with others Entered inv t raised_calls_same[OF t, of Left]
      show ?thesis
        unfolding get_shared_data_step_def invocations_invariant_def
        by (auto simp: nth_list_update raised_calls_def)
    qed
  next
    case (Computing n)
    with lock_exclusive[OF li t]
    have others: "\<forall>u < length (calls s). u \<noteq> t \<longrightarrow> (\<forall>m. calls s ! u \<noteq> Computing m)"
      by (metis in_lock_simps(3))
    from li t Computing have none: "shared s = None" by (simp add: lock_invariant_def)
    from Computing t inv have one: "invocations s = raised_calls s + 1" by auto
    show ?thesis
    proof (cases "f n")
      case (Inl e)
      with others Computing none one t raised_calls_more[OF t, of e]
      show ?thesis
        unfolding get_shared_data_step_def invocations_invariant_def
        by (auto simp: nth_list_update raised_calls_def)
    next
      case (Inr v)
      with Computing one t raised_calls_same[OF t, of Left]
      show ?thesis
        unfolding get_shared_data_step_def invocations_invariant_def
        by (auto simp: raised_calls_def)
    qed
  next
    case Left
    with li t obtain v where v: "shared s = Some v" by (auto simp: lock_invariant_def)
    with Left inv t raised_calls_same[OF t, of "Returned v"] show ?thesis
      unfolding get_shared_data_step_def invocations_invariant_def
      by (auto simp: nth_list_update raised_calls_def)
  next
    case (Returned v)
    with ii t show ?thesis by (simp add: get_shared_data_step_def)
  next
    case (Raised e)
    with ii t show ?thesis by (simp add: get_shared_data_step_def)
  qed
qed

lemma shared_invariant_run:
  "shared_invariant s \<Longrightarrow> shared_invariant (get_shared_data_run f schedule s)"
  unfolding get_shared_data_run_def
  by (induction schedule arbitrary: s)
     (simp_all add: shared_invariant_def lock_invariant_step invocations_invariant_step)

lemma length_calls_run [simp]:
  "length (calls (get_shared_data_run f schedule s)) = length (calls s)"
  unfolding get_shared_data_run_def by (induction schedule arbitrary: s) simp_all

lemma raised_calls_none:
  assumes "\<forall>t < length (calls s). \<forall>e. calls s ! t \<noteq> Raised e"
  shows "raised_calls s = 0"
proof -
  have "\<not> is_raised c" if "c \<in> set (calls s)" for c
  proof -
    from that obtain t where "t < length (calls s)" "calls s ! t = c"
      by (auto simp: in_set_conv_nth)
    with assms show ?thesis by (cases c) auto
  qed
  then show ?thesis by (simp add: raised_calls_def filter_empty_conv)
qed

text \<open>
  Claim C9, as the code has it. Take any run of \<open>K\<close> concurrent calls of
  \<open>get_shared_data\<close> of one class that starts after the clearing of the shared data,
  under any schedule. Every call that has returned has returned the value stored for
  the class, so all returned values are the same. A call whose \<open>set_shared_data\<close>
  raises stores nothing, and the next call to enter computes again:
  \<open>set_shared_data\<close> has been invoked at most once more than the number of calls that
  ended with an exception, and exactly once more as soon as one call has returned. So
  as long as no call has raised it has been invoked at most once, and when all \<open>K\<close>
  calls (at least one) have returned it has been invoked exactly once.
\<close>

theorem get_shared_data_once:
  fixes set_shared_data :: "nat \<Rightarrow> error + 'v"
  shows "(\<forall>t < K. \<forall>v. calls (get_shared_data_run set_shared_data schedule (cleared K)) ! t = Returned v
          \<longrightarrow> shared (get_shared_data_run set_shared_data schedule (cleared K)) = Some v)
   \<and> invocations (get_shared_data_run set_shared_data schedule (cleared K)) \<le> Suc (raised_calls (get_shared_data_run set_shared_data schedule (cleared K)))
   \<and> ((\<exists>t < K. \<exists>v. calls (get_shared_data_run set_shared_data schedule (cleared K)) ! t = Returned v)
       \<longrightarrow> invocations (get_shared_data_run set_shared_data schedule (cleared K)) = Suc (raised_calls (get_shared_data_run set_shared_data schedule (cleared K))))
   \<and> ((\<forall>t < K. \<forall>e. calls (get_shared_data_run set_shared_data schedule (cleared K)) ! t \<noteq> Raised e)
       \<longrightarrow> invocations (get_shared_data_run set_shared_data schedule (cleared K)) \<le> 1)
   \<and> (0 < K \<and> (\<forall>t < K. \<exists>v. calls (get_shared_data_run set_shared_data schedule (cleared K)) ! t = Returned v)
       \<longrightarrow> invocations (get_shared_data_run set_shared_data schedule (cleared K)) = 1
         \<and> (\<exists>v. shared (get_shared_data_run set_shared_data schedule (cleared K)) = Some v
              \<and> (\<forall>t < K. calls (get_shared_data_run set_shared_data schedule (cleared K)) ! t = Returned v)))"
proof -
  let ?s = "get_shared_data_run set_shared_data schedule (cleared K) :: 'v shared_state"
  have inv: "shared_invariant ?s"
    by (rule shared_invariant_run) (rule shared_invariant_cleared)
  have len: "length (calls ?s) = K" by (simp add: cleared_def)
  from inv have li: "lock_invariant ?s" and ii: "invocations_invariant ?s"
    by (simp_all add: shared_invariant_def)
  have same: "shared ?s = Some v" if "t < K" and "calls ?s ! t = Returned v" for t v
    using li that unfolding lock_invariant_def len by blast
  have most: "invocations ?s \<le> Suc (raised_calls ?s)"
    using ii unfolding invocations_invariant_def by (simp split: if_splits)
  have stored: "invocations ?s = Suc (raised_calls ?s)"
    if "\<exists>t < K. \<exists>v. calls ?s ! t = Returned v"
  proof -
    from that same have "shared ?s \<noteq> None" by fastforce
    with ii show ?thesis unfolding invocations_invariant_def by simp
  qed
  have quiet: "invocations ?s \<le> 1" if "\<forall>t < K. \<forall>e. calls ?s ! t \<noteq> Raised e"
  proof -
    from that have "raised_calls ?s = 0" by (intro raised_calls_none) (simp add: cleared_def)
    with most show ?thesis by simp
  qed
  have all: "invocations ?s = 1
         \<and> (\<exists>v. shared ?s = Some v \<and> (\<forall>t < K. calls ?s ! t = Returned v))"
    if K: "0 < K" and r: "\<forall>t < K. \<exists>v. calls ?s ! t = Returned v"
  proof -
    from K r obtain v where v: "calls ?s ! 0 = Returned v" by blast
    with K have sh: "shared ?s = Some v" by (rule same)
    have eq: "\<forall>t < K. calls ?s ! t = Returned v"
    proof (intro allI impI)
      fix t assume t: "t < K"
      with r obtain w where w: "calls ?s ! t = Returned w" by blast
      with t have "shared ?s = Some w" by (rule same)
      with sh w show "calls ?s ! t = Returned v" by simp
    qed
    then have "raised_calls ?s = 0" by (intro raised_calls_none) (simp add: cleared_def)
    moreover from K r have "invocations ?s = Suc (raised_calls ?s)" by (intro stored) blast
    ultimately show ?thesis using sh eq by simp
  qed
  from same most stored quiet all show ?thesis by blast
qed

theorem get_shared_data_once_witness:
  "calls (get_shared_data_run (\<lambda>n. Inr (10 + n)) [0, 1, 0, 1, 0, 1, 0, 1, 1] (cleared 2)) ! 0
     = Returned (10::nat)
   \<and> calls (get_shared_data_run (\<lambda>n. Inr (10 + n)) [0, 1, 0, 1, 0, 1, 0, 1, 1] (cleared 2)) ! 1
     = Returned (10::nat)
   \<and> invocations ((get_shared_data_run (\<lambda>n. Inr (10 + n)) [0, 1, 0, 1, 0, 1, 0, 1, 1] (cleared 2)) :: nat shared_state) = 1"
proof -
  have run: "(get_shared_data_run (\<lambda>n. Inr (10 + n)) [0, 1, 0, 1, 0, 1, 0, 1, 1] (cleared 2))
     = \<lparr>calls = [Returned (10::nat), Returned 10], lock = None, shared = Some 10,
        invocations = 1\<rparr>"
    by (simp add: get_shared_data_run_def get_shared_data_step_def cleared_def
        numeral_2_eq_2)
  have h: "0 < (2::nat) \<and> (\<forall>t < 2. \<exists>v. calls (get_shared_data_run (\<lambda>n. Inr (10 + n)) [0, 1, 0, 1, 0, 1, 0, 1, 1] (cleared 2)) ! t = Returned (v::nat))"
    unfolding run by (simp add: less_Suc_eq numeral_2_eq_2)
  from get_shared_data_once [of 2 "\<lambda>n. Inr (10 + n)" "[0, 1, 0, 1, 0, 1, 0, 1, 1]"] h
  have "invocations ((get_shared_data_run (\<lambda>n. Inr (10 + n)) [0, 1, 0, 1, 0, 1, 0, 1, 1] (cleared 2)) :: nat shared_state) = 1"
    by blast
  with run show ?thesis by simp
qed

text \<open>
  Claim C9 as it is written fails: of three calls the first computes and its
  \<open>set_shared_data\<close> raises; the second computes again and stores the value that the
  second and the third return. \<open>set_shared_data\<close> has been invoked twice.
\<close>

theorem get_shared_data_twice_counterexample:
  "(get_shared_data_run (\<lambda>n. if n = 0 then Inl ValueError else Inr (10 + n))
        [0, 0, 0, 1, 1, 1, 1, 2, 2, 2] (cleared 3))
     = \<lparr>calls = [Raised ValueError, Returned (11::nat), Returned 11], lock = None,
        shared = Some 11, invocations = 2\<rparr>
   \<and> invocations ((get_shared_data_run (\<lambda>n. if n = 0 then Inl ValueError else Inr (10 + n))
        [0, 0, 0, 1, 1, 1, 1, 2, 2, 2] (cleared 3)) :: nat shared_state) \<noteq> 1"
  by (simp add: get_shared_data_run_def get_shared_data_step_def cleared_def
      numeral_3_eq_3)

text \<open>
  Such runs exist for every \<open>K\<close>: when the first invocation of \<open>set_shared_data\<close>
  returns a value, resuming the calls one after the other lets all of them return it.
\<close>

lemma run_append:
  "get_shared_data_run f (xs @ ys) s = get_shared_data_run f ys (get_shared_data_run f xs s)"
  by (simp add: get_shared_data_run_def)

lemma first_call_computes:
  assumes "0 < K" and "f 0 = Inr v"
  shows "get_shared_data_run f [0, 0, 0, 0] (cleared K) =
     \<lparr>calls = replicate 1 (Returned v) @ replicate (K - 1) Waiting, lock = None,
      shared = Some v, invocations = 1\<rparr>"
proof -
  from assms(1) obtain k where K: "K = Suc k" by (cases K) auto
  show ?thesis
    using assms(2)
    by (simp add: K get_shared_data_run_def get_shared_data_step_def cleared_def)
qed

lemma step_acquire:
  "get_shared_data_step f (length xs)
     \<lparr>calls = xs @ Waiting # ys, lock = None, shared = sh, invocations = i\<rparr>
   = \<lparr>calls = xs @ Entered # ys, lock = Some (length xs), shared = sh, invocations = i\<rparr>"
  by (simp add: get_shared_data_step_def)

lemma step_present:
  "get_shared_data_step f (length xs)
     \<lparr>calls = xs @ Entered # ys, lock = l, shared = Some v, invocations = i\<rparr>
   = \<lparr>calls = xs @ Left # ys, lock = None, shared = Some v, invocations = i\<rparr>"
  by (simp add: get_shared_data_step_def)

lemma step_return:
  "get_shared_data_step f (length xs)
     \<lparr>calls = xs @ Left # ys, lock = l, shared = Some v, invocations = i\<rparr>
   = \<lparr>calls = xs @ Returned v # ys, lock = l, shared = Some v, invocations = i\<rparr>"
  by (simp add: get_shared_data_step_def)

lemma next_call_reads:
  assumes "j < K"
  shows "get_shared_data_run f [j, j, j]
     \<lparr>calls = replicate j (Returned v) @ replicate (K - j) Waiting, lock = None,
      shared = Some v, invocations = 1\<rparr> =
     \<lparr>calls = replicate (Suc j) (Returned v) @ replicate (K - Suc j) Waiting, lock = None,
      shared = Some v, invocations = 1\<rparr>"
proof -
  let ?xs = "replicate j (Returned v)"
  from assms obtain k where k: "K - j = Suc k" by (cases "K - j") auto
  then have k': "K - Suc j = k" by simp
  have j: "length ?xs = j" by simp
  have fin: "?xs @ Returned v # replicate k Waiting
      = replicate (Suc j) (Returned v) @ replicate k Waiting"
    by (simp add: replicate_app_Cons_same)
  have "get_shared_data_run f [j, j, j]
     \<lparr>calls = ?xs @ Waiting # replicate k Waiting, lock = None,
      shared = Some v, invocations = 1\<rparr>
    = get_shared_data_step f (length ?xs) (get_shared_data_step f (length ?xs)
        (get_shared_data_step f (length ?xs)
          \<lparr>calls = ?xs @ Waiting # replicate k Waiting, lock = None,
           shared = Some v, invocations = 1\<rparr>))"
    by (simp only: j get_shared_data_run_def fold_simps id_apply comp_apply)
  also have "\<dots> = \<lparr>calls = ?xs @ Returned v # replicate k Waiting, lock = None,
      shared = Some v, invocations = 1\<rparr>"
    by (simp only: step_acquire step_present step_return)
  finally show ?thesis
    by (simp only: k k' fin replicate_Suc)
qed

lemma sequential_calls_return:
  assumes "1 \<le> n" and "n \<le> K" and "f 0 = Inr v"
  shows "get_shared_data_run f ([0, 0, 0, 0] @ concat (map (\<lambda>j. [j, j, j]) [1..<n])) (cleared K) =
     \<lparr>calls = replicate n (Returned v) @ replicate (K - n) Waiting, lock = None,
      shared = Some v, invocations = 1\<rparr>"
  using assms
proof (induction n)
  case 0
  then show ?case by simp
next
  case (Suc n)
  show ?case
  proof (cases "n = 0")
    case True
    with Suc.prems first_call_computes[of K f v] show ?thesis by simp
  next
    case False
    with Suc have ih: "get_shared_data_run f ([0, 0, 0, 0] @ concat (map (\<lambda>j. [j, j, j]) [1..<n]))
        (cleared K) =
        \<lparr>calls = replicate n (Returned v) @ replicate (K - n) Waiting, lock = None,
         shared = Some v, invocations = 1\<rparr>" by simp
    from False have "[1..<Suc n] = [1..<n] @ [n]" by simp
    then have "[0, 0, 0, 0] @ concat (map (\<lambda>j. [j, j, j]) [1..<Suc n])
        = ([0, 0, 0, 0] @ concat (map (\<lambda>j. [j, j, j]) [1..<n])) @ [n, n, n]" by simp
    moreover from Suc.prems have "n < K" by simp
    ultimately show ?thesis
      using ih next_call_reads[of n K f v]
      by (simp only: run_append)
  qed
qed

lemma get_shared_data_all_return:
  assumes "set_shared_data 0 = Inr v"
  shows "\<exists>schedule. \<forall>t < K.
           calls (get_shared_data_run set_shared_data schedule (cleared K)) ! t = Returned v"
proof (cases "K = 0")
  case True
  then show ?thesis by simp
next
  case False
  then have "1 \<le> K" by simp
  from sequential_calls_return[of K K set_shared_data v, OF this order_refl assms]
  have "\<forall>t < K. calls (get_shared_data_run set_shared_data
      ([0, 0, 0, 0] @ concat (map (\<lambda>j. [j, j, j]) [1..<K])) (cleared K)) ! t = Returned v"
    by simp
  then show ?thesis by blast
qed

end
